theory Spec2Isabelle
  imports Complex_Main "HOL-Library.Word" "HOL-Library.Sublist"
begin

unbundle bit_operations_syntax

section \<open>Data model\<close>

text \<open>
  The types of the shared type module. String-literal unions become datatypes, interfaces
  become records. Numbers that the code computes with are \<open>real\<close> (a JavaScript number read
  as the real it denotes), counts are \<open>nat\<close>. Wall-clock readings (\<open>Date.now()\<close>,
  \<open>new Date()\<close>) are inputs of the environment: the operations that store one take it as
  an argument, and the \<open>timestamp\<close> fields of log and error entries are left out.
  Text that is hashed or truncated by code unit is a list of UTF-16 code units.
\<close>

type_synonym jsstring = "16 word list"

datatype Urgency = UrgLow | UrgMedium | UrgHigh | UrgCritical

datatype Complexity = CxLow | CxMedium | CxHigh

datatype LegalCategory =
    CivilLitigation | ContractDispute | EmploymentLaw | PersonalInjury
  | IntellectualProperty | RealEstate | FamilyLaw | CriminalDefense | BusinessLaw
  | OtherCategory

datatype CourtLevel = Municipal | County | StateCourt | Federal | Supreme

datatype CaseStatus =
    CaseIntake | CaseActive | CaseReview | CaseCompleted | CaseArchived | CaseCancelled

datatype WorkflowStage =
    PlaintiffIntake | LegalResearch | ArgumentGeneration | DocumentDrafting
  | ReviewAndRevision | FinalFormatting | Completed

datatype DocumentType =
    Complaint | Motion | Brief | Contract | SettlementAgreement | DiscoveryRequest
  | EvidenceSummary | LegalMemo | CourtFiling | Correspondence

datatype DocumentFormat = Pdf | Docx | Html | Txt

datatype DocumentStatus = DocDraft | DocReview | DocApproved | DocFiled | DocArchived

datatype Severity = SevLow | SevMedium | SevHigh | SevCritical

datatype AgentType =
    IntakeAgentT | ResearchAgentT | ArgumentAgentT | DocumentAgentT | ReviewAgentT
  | RagRetrieverT | FormattingAgentT

datatype AgentStatus = Idle | Processing | Error | Maintenance

record PlaintiffInfo =
  plaintiffName :: string
  email :: string
  phone :: string
  legalIssue :: string
  description :: string
  desiredOutcome :: string
  urgency :: Urgency

record CaseDetails =
  caseTitle :: string
  category :: LegalCategory
  jurisdiction :: string
  courtLevel :: CourtLevel
  estimatedDuration :: real
  complexity :: Complexity
  precedents :: "string list"
  relevantLaws :: "string list"

record Document =
  docId :: string
  docCaseId :: string
  docType :: DocumentType
  docTitle :: string
  docContent :: string
  docFormat :: DocumentFormat
  docVersion :: nat
  docStatus :: DocumentStatus

record LegalCase =
  caseId :: string
  plaintiffInfo :: PlaintiffInfo
  caseDetails :: CaseDetails
  caseStatus :: CaseStatus
  workflowStage :: WorkflowStage
  documents :: "Document list"
  createdAt :: int
  updatedAt :: int

section \<open>DocumentAgent: the documents a case needs\<close>

text \<open>
  \<open>[...new Set(documents)]\<close>: a JavaScript \<open>Set\<close> iterates in insertion order and
  ignores an element it already holds, so the first occurrence of each element stays where
  it is and the later ones go. (\<open>remdups\<close> of the list library keeps the last ones.)
\<close>

fun uniqueInOrder :: "'a list \<Rightarrow> 'a list \<Rightarrow> 'a list" where
  "uniqueInOrder seen [] = []"
| "uniqueInOrder seen (x # xs) =
     (if x \<in> set seen then uniqueInOrder seen xs else x # uniqueInOrder (seen @ [x]) xs)"

definition fromSet :: "'a list \<Rightarrow> 'a list" where
  "fromSet xs = uniqueInOrder [] xs"

fun categoryDocuments :: "LegalCategory \<Rightarrow> DocumentType list" where
  "categoryDocuments CivilLitigation = [Complaint, DiscoveryRequest]"
| "categoryDocuments ContractDispute = [Complaint, Motion, LegalMemo]"
| "categoryDocuments EmploymentLaw = [Complaint, DiscoveryRequest, LegalMemo]"
| "categoryDocuments PersonalInjury = [Complaint, DiscoveryRequest, EvidenceSummary]"
| "categoryDocuments IntellectualProperty = [Complaint, Motion, Brief]"
| "categoryDocuments RealEstate = [Contract, LegalMemo]"
| "categoryDocuments FamilyLaw = [Complaint, Motion]"
| "categoryDocuments CriminalDefense = [Motion, Brief]"
| "categoryDocuments BusinessLaw = [Contract, LegalMemo]"
| "categoryDocuments OtherCategory = [LegalMemo]"

definition determineDocumentsNeeded :: "LegalCase \<Rightarrow> DocumentType list" where
  "determineDocumentsNeeded caseData =
     (let documents0 = categoryDocuments (category (caseDetails caseData));
          documents1 = (if complexity (caseDetails caseData) = CxHigh
                        then documents0 @ [Brief] else documents0);
          documents2 = (if urgency (plaintiffInfo caseData) = UrgCritical
                        then Motion # documents1 else documents1)
      in fromSet documents2)"

text \<open>A case with given category, complexity and urgency, and nothing else of note.\<close>

definition sampleCase :: "LegalCategory \<Rightarrow> Complexity \<Rightarrow> Urgency \<Rightarrow> LegalCase" where
  "sampleCase cat cx urg =
     \<lparr> caseId = ''case-1'',
       plaintiffInfo = \<lparr> plaintiffName = ''Jane Roe'', email = ''jane@example.com'',
         phone = ''555-0123'', legalIssue = ''Breach of contract'',
         description = ''Vendor failed to deliver'', desiredOutcome = ''Damages'',
         urgency = urg \<rparr>,
       caseDetails = \<lparr> caseTitle = ''Roe v. Vendor'', category = cat,
         jurisdiction = ''Federal'', courtLevel = Federal, estimatedDuration = 30,
         complexity = cx, precedents = [], relevantLaws = [] \<rparr>,
       caseStatus = CaseIntake, workflowStage = PlaintiffIntake, documents = [],
       createdAt = 0, updatedAt = 0 \<rparr>"

section \<open>Retrieval engine\<close>

text \<open>
  The vector index is an object of an external library, and the embedding backend, the
  file system and the clock are external too. What they answer is an input of the model:
  the record \<open>RagEnv\<close> holds, for each external call the service makes, the outcome of
  that call (\<open>Inl\<close> a thrown error's message, \<open>Inr\<close> the value). The index object is of
  an arbitrary type \<open>'ix\<close>. A k-nearest-neighbour answer is the list of (label, distance)
  pairs, the library's two parallel arrays \<open>neighbors\<close> and \<open>distances\<close> read together.
\<close>

record DocMetadata =
  metaType :: "string option"
  metaJurisdiction :: "string option"
  metaDate :: "int option"

record InputDocument =
  inId :: string
  inTitle :: string
  inContent :: jsstring
  inSource :: string
  inMetadata :: DocMetadata

record StoredDocument = InputDocument +
  storedIndex :: nat
  addedAt :: int

record ScoredDocument = StoredDocument +
  score :: real

record RetrievedDocument =
  retId :: string
  retTitle :: string
  retContent :: jsstring
  retSource :: string
  relevanceScore :: real
  retMetadata :: DocMetadata

record DateRange =
  rangeStart :: "int option"
  rangeEnd :: "int option"

record RAGFilters =
  documentType :: "string list option"
  jurisdictionFilter :: "string list option"
  dateRange :: "DateRange option"
  minRelevanceScore :: "real option"

record RAGQuery =
  queryText :: jsstring
  queryContext :: string
  filters :: "RAGFilters option"
  maxResults :: "nat option"
  threshold :: "real option"

record RAGResult =
  resDocuments :: "RetrievedDocument list"
  totalResults :: nat
  queryTime :: int
  confidence :: real

record 'ix RagEnv =
  apiKeySet :: bool
  embeddingsCreate :: "jsstring \<Rightarrow> string + real list"
  loadIndex :: "string + 'ix"
  createIndex :: "string + 'ix"
  readDocumentsFile :: "string + StoredDocument list"
  addPoint :: "'ix \<Rightarrow> real list \<Rightarrow> nat \<Rightarrow> string + 'ix"
  searchKnn :: "'ix \<Rightarrow> real list \<Rightarrow> nat \<Rightarrow> string + (nat \<times> real) list"
  saveFiles :: "string option"
  elapsed :: int

record 'ix RAGService =
  vectorIndex :: "'ix option"
  ragDocuments :: "(nat \<times> StoredDocument) list"
  isInitialized :: bool

definition vectorDimension :: nat where
  "vectorDimension = 1536"

text \<open>
  \<open>simpleHash\<close>: \<open>hash << 5\<close> and \<open>hash & hash\<close> are 32-bit operations, and between
  them the subtraction and the addition are exact, so one round is
  \<open>(hash << 5) - hash + char\<close> on 32-bit words; \<open>Math.abs\<close> reads the word signed.
\<close>

definition hashStep :: "32 word \<Rightarrow> 16 word \<Rightarrow> 32 word" where
  "hashStep hash char = (push_bit 5 hash - hash) + ucast char"

definition simpleHash :: "jsstring \<Rightarrow> int" where
  "simpleHash str = \<bar>sint (foldl hashStep 0 str)\<bar>"

definition getMockEmbedding :: "jsstring \<Rightarrow> real list" where
  "getMockEmbedding text =
     (let hash = simpleHash text
      in map (\<lambda>i. sin (of_int (hash * (int i + 1))) * (1 / 10)) [0..<vectorDimension])"

definition getEmbedding :: "'ix RagEnv \<Rightarrow> jsstring \<Rightarrow> real list" where
  "getEmbedding env text =
     (if \<not> apiKeySet env then getMockEmbedding text
      else (case embeddingsCreate env (take 8000 text) of
              Inr embedding \<Rightarrow> embedding
            | Inl err \<Rightarrow> getMockEmbedding text))"

text \<open>\<open>Map.set\<close>: a key already present keeps its place and takes the new value.\<close>

fun mapSet :: "nat \<Rightarrow> 'v \<Rightarrow> (nat \<times> 'v) list \<Rightarrow> (nat \<times> 'v) list" where
  "mapSet k v [] = [(k, v)]"
| "mapSet k v (p # ps) = (if fst p = k then (k, v) # ps else p # mapSet k v ps)"

text \<open>
  \<open>loadOrCreateIndex\<close>: \<open>loadIndex\<close> is the outcome of the \<open>try\<close> block (the index file is
  there and is read), \<open>createIndex\<close> that of the \<open>catch\<close> block (a new index is made);
  when neither succeeds the error of the second leaves \<open>initialize\<close>, wrapped.
\<close>

definition loadOrCreateIndex :: "'ix RagEnv \<Rightarrow> 'ix RAGService \<Rightarrow> string + 'ix RAGService" where
  "loadOrCreateIndex env st =
     (case loadIndex env of
        Inr ix \<Rightarrow> Inr (st\<lparr> vectorIndex := Some ix \<rparr>)
      | Inl err \<Rightarrow>
          (case createIndex env of
             Inr ix \<Rightarrow> Inr (st\<lparr> vectorIndex := Some ix \<rparr>)
           | Inl err' \<Rightarrow> Inl err'))"

definition loadDocuments :: "'ix RagEnv \<Rightarrow> 'ix RAGService \<Rightarrow> 'ix RAGService" where
  "loadDocuments env st =
     (case readDocumentsFile env of
        Inr documentsArray \<Rightarrow>
          st\<lparr> ragDocuments := foldl (\<lambda>m doc. mapSet (storedIndex doc) doc m) [] documentsArray \<rparr>
      | Inl err \<Rightarrow> st)"

definition initialize :: "'ix RagEnv \<Rightarrow> 'ix RAGService \<Rightarrow> (string + unit) \<times> 'ix RAGService" where
  "initialize env st =
     (case loadOrCreateIndex env st of
        Inl err \<Rightarrow> (Inl (''RAG Service initialization failed: '' @ err), st)
      | Inr st1 \<Rightarrow> (Inr (), (loadDocuments env st1)\<lparr> isInitialized := True \<rparr>))"

definition ensureInitialized :: "'ix RagEnv \<Rightarrow> 'ix RAGService \<Rightarrow> (string + unit) \<times> 'ix RAGService" where
  "ensureInitialized env st = (if \<not> isInitialized st then initialize env st else (Inr (), st))"

text \<open>\<open>{...document, score}\<close>\<close>

definition withScore :: "StoredDocument \<Rightarrow> real \<Rightarrow> ScoredDocument" where
  "withScore document sc = StoredDocument.extend document \<lparr> score = sc \<rparr>"

definition scoreNeighbour ::
  "(nat \<times> StoredDocument) list \<Rightarrow> real \<Rightarrow> nat \<times> real \<Rightarrow> ScoredDocument option" where
  "scoreNeighbour docs thr n =
     (case map_of docs (fst n) of
        None \<Rightarrow> None
      | Some document \<Rightarrow>
          (let sc = 1 - snd n
           in if sc < thr then None else Some (withScore document sc)))"

definition searchSimilar ::
  "'ix RagEnv \<Rightarrow> 'ix RAGService \<Rightarrow> real list \<Rightarrow> nat \<Rightarrow> real \<Rightarrow> string + ScoredDocument list" where
  "searchSimilar env st queryEmbedding k thr =
     (case vectorIndex st of
        None \<Rightarrow> Inr []
      | Some ix \<Rightarrow>
          if length (ragDocuments st) = 0 then Inr []
          else (case searchKnn env ix queryEmbedding k of
                  Inl err \<Rightarrow> Inl err
                | Inr neighbours \<Rightarrow>
                    Inr (List.map_filter (scoreNeighbour (ragDocuments st) thr) neighbours)))"

definition includesOpt :: "string list \<Rightarrow> string option \<Rightarrow> bool" where
  "includesOpt xs v = (case v of None \<Rightarrow> False | Some x \<Rightarrow> x \<in> set xs)"

definition passesFilters :: "RAGFilters \<Rightarrow> ScoredDocument \<Rightarrow> bool" where
  "passesFilters f result =
     (if (case documentType f of None \<Rightarrow> False
          | Some ts \<Rightarrow> length ts > 0 \<and> \<not> includesOpt ts (metaType (inMetadata result)))
      then False
      else if (case jurisdictionFilter f of None \<Rightarrow> False
          | Some js \<Rightarrow> length js > 0 \<and> \<not> includesOpt js (metaJurisdiction (inMetadata result)))
      then False
      else if (case dateRange f of None \<Rightarrow> False
          | Some r \<Rightarrow>
              (case metaDate (inMetadata result) of None \<Rightarrow> False
               | Some docDate \<Rightarrow>
                   (case rangeStart r of None \<Rightarrow> False | Some s \<Rightarrow> docDate < s) \<or>
                   (case rangeEnd r of None \<Rightarrow> False | Some e \<Rightarrow> docDate > e)))
      then False
      else if (case minRelevanceScore f of None \<Rightarrow> False
          | Some m \<Rightarrow> m \<noteq> 0 \<and> score result < m)
      then False
      else True)"

definition applyFilters :: "ScoredDocument list \<Rightarrow> RAGFilters option \<Rightarrow> ScoredDocument list" where
  "applyFilters results fs =
     (case fs of None \<Rightarrow> results | Some f \<Rightarrow> filter (passesFilters f) results)"

definition toRetrieved :: "ScoredDocument \<Rightarrow> RetrievedDocument" where
  "toRetrieved result =
     \<lparr> retId = inId result, retTitle = inTitle result, retContent = inContent result,
       retSource = inSource result, relevanceScore = score result,
       retMetadata = inMetadata result \<rparr>"

text \<open>\<open>x || d\<close> on an optional number: the default also replaces 0.\<close>

definition orDefaultNat :: "nat option \<Rightarrow> nat \<Rightarrow> nat" where
  "orDefaultNat v d = (case v of None \<Rightarrow> d | Some n \<Rightarrow> if n = 0 then d else n)"

definition orDefaultReal :: "real option \<Rightarrow> real \<Rightarrow> real" where
  "orDefaultReal v d = (case v of None \<Rightarrow> d | Some x \<Rightarrow> if x = 0 then d else x)"

text \<open>The body of the \<open>try\<close> block of \<open>query\<close>.\<close>

definition queryTry :: "'ix RagEnv \<Rightarrow> RAGQuery \<Rightarrow> 'ix RAGService \<Rightarrow> string + RAGResult" where
  "queryTry env request st =
     (let queryEmbedding = getEmbedding env (queryText request)
      in case searchSimilar env st queryEmbedding
                (orDefaultNat (maxResults request) 10) (orDefaultReal (threshold request) (7 / 10)) of
           Inl err \<Rightarrow> Inl err
         | Inr searchResults \<Rightarrow>
             (let retrievedDocuments = map toRetrieved (applyFilters searchResults (filters request))
              in Inr \<lparr> resDocuments = retrievedDocuments,
                       totalResults = length retrievedDocuments,
                       queryTime = elapsed env,
                       confidence =
                         (if length retrievedDocuments > 0
                          then sum_list (map relevanceScore retrievedDocuments)
                                 / real (length retrievedDocuments)
                          else 0) \<rparr>))"

definition emptyResult :: "'ix RagEnv \<Rightarrow> RAGResult" where
  "emptyResult env = \<lparr> resDocuments = [], totalResults = 0, queryTime = elapsed env, confidence = 0 \<rparr>"

definition query ::
  "'ix RagEnv \<Rightarrow> RAGQuery \<Rightarrow> 'ix RAGService \<Rightarrow> (string + RAGResult) \<times> 'ix RAGService" where
  "query env request st =
     (case ensureInitialized env st of
        (Inl err, st1) \<Rightarrow> (Inl err, st1)
      | (Inr u, st1) \<Rightarrow>
          (case queryTry env request st1 of
             Inr result \<Rightarrow> (Inr result, st1)
           | Inl err \<Rightarrow> (Inr (emptyResult env), st1)))"

text \<open>
  \<open>addDocument\<close>: what the \<open>try\<close> block has changed before a call throws stays changed,
  and the error is thrown again.
\<close>

text \<open>\<open>{...document, index: docIndex, addedAt: new Date()}\<close>\<close>

definition storeDocument :: "InputDocument \<Rightarrow> nat \<Rightarrow> int \<Rightarrow> StoredDocument" where
  "storeDocument document docIndex now =
     InputDocument.extend document \<lparr> storedIndex = docIndex, addedAt = now \<rparr>"

definition addDocumentTry ::
  "'ix RagEnv \<Rightarrow> InputDocument \<Rightarrow> int \<Rightarrow> 'ix RAGService \<Rightarrow> (string + unit) \<times> 'ix RAGService" where
  "addDocumentTry env document now st =
     (let embedding = getEmbedding env (inContent document);
          docIndex = length (ragDocuments st);
          stored = storeDocument document docIndex now
      in case (case vectorIndex st of
                 None \<Rightarrow> Inr None
               | Some ix \<Rightarrow> map_sum id Some (addPoint env ix embedding docIndex)) of
           Inl err \<Rightarrow> (Inl err, st)
         | Inr ix' \<Rightarrow>
             (let st1 = st\<lparr> vectorIndex := ix', ragDocuments := mapSet docIndex stored (ragDocuments st) \<rparr>
              in case saveFiles env of
                   Some err \<Rightarrow> (Inl err, st1)
                 | None \<Rightarrow> (Inr (), st1)))"

definition addDocument ::
  "'ix RagEnv \<Rightarrow> InputDocument \<Rightarrow> int \<Rightarrow> 'ix RAGService \<Rightarrow> (string + unit) \<times> 'ix RAGService" where
  "addDocument env document now st =
     (case ensureInitialized env st of
        (Inl err, st1) \<Rightarrow> (Inl err, st1)
      | (Inr u, st1) \<Rightarrow> addDocumentTry env document now st1)"

definition newService :: "'ix RAGService" where
  "newService = \<lparr> vectorIndex = None, ragDocuments = [], isInitialized = False \<rparr>"


subsection \<open>A concrete environment\<close>

text \<open>
  An environment to run the service in: no embedding credentials (so the hash-based
  embedder is the active one), no persisted files, and an index that keeps its points in a
  list and answers a search with the first \<open>k\<close> of them, at distance 0 from an identical
  vector and 1 from any other.
\<close>

definition demoEnv :: "(real list \<times> nat) list RagEnv" where
  "demoEnv =
     \<lparr> apiKeySet = False,
       embeddingsCreate = (\<lambda>t. Inl ''no embedding backend''),
       loadIndex = Inl ''ENOENT'',
       createIndex = Inr [],
       readDocumentsFile = Inl ''ENOENT'',
       addPoint = (\<lambda>ix v l. Inr (ix @ [(v, l)])),
       searchKnn = (\<lambda>ix q k. Inr (take k (map (\<lambda>p. (snd p, if fst p = q then 0 else 1)) ix))),
       saveFiles = None,
       elapsed = 5 \<rparr>"

definition brokenSearchEnv :: "(real list \<times> nat) list RagEnv" where
  "brokenSearchEnv = demoEnv\<lparr> searchKnn := (\<lambda>ix q k. Inl ''index corrupted'') \<rparr>"

definition noIndexEnv :: "(real list \<times> nat) list RagEnv" where
  "noIndexEnv = demoEnv\<lparr> createIndex := Inl ''index library unavailable'' \<rparr>"

definition demoDocument :: InputDocument where
  "demoDocument =
     \<lparr> inId = ''doc-1'', inTitle = ''Statute of Frauds'', inContent = [104, 105],
       inSource = ''statutes/frauds.txt'',
       inMetadata = \<lparr> metaType = Some ''statute'', metaJurisdiction = Some ''Federal'',
                      metaDate = None \<rparr> \<rparr>"

definition demoService :: "(real list \<times> nat) list RAGService" where
  "demoService = snd (addDocument demoEnv demoDocument 0 newService)"

definition plainQuery :: "jsstring \<Rightarrow> RAGQuery" where
  "plainQuery t = \<lparr> queryText = t, queryContext = [], filters = None, maxResults = None,
                    threshold = None \<rparr>"


definition demoQuery :: RAGQuery where
  "demoQuery = (plainQuery [104, 105])\<lparr> maxResults := Some 3, threshold := Some (1 / 2) \<rparr>"

definition demoRetrieved :: RetrievedDocument where
  "demoRetrieved =
     \<lparr> retId = ''doc-1'', retTitle = ''Statute of Frauds'', retContent = [104, 105],
       retSource = ''statutes/frauds.txt'', relevanceScore = 1,
       retMetadata = \<lparr> metaType = Some ''statute'', metaJurisdiction = Some ''Federal'',
                       metaDate = None \<rparr> \<rparr>"

definition demoResult :: RAGResult where
  "demoResult = \<lparr> resDocuments = [demoRetrieved], totalResults = 1, queryTime = 5, confidence = 1 \<rparr>"






text \<open>
  Once the service is initialized it has an index: \<open>initialize\<close> sets both, and nothing
  takes the index away.
\<close>

definition serviceInv :: "'ix RAGService \<Rightarrow> bool" where
  "serviceInv st = (isInitialized st \<longrightarrow> vectorIndex st \<noteq> None)"

section \<open>Agents\<close>

text \<open>
  The agent descriptor, without its random id and its fixed description and capability
  list. The variant's task (\<open>executeTask\<close>) calls external services; what it does is an
  input of the model: a task is a function from the case to the outcome of running it,
  \<open>Inl\<close> the message of the error thrown or \<open>Inr\<close> the case returned, with the
  milliseconds it took (the agent and the orchestrator each time the call; both get this
  figure). Events an agent emits, and the orchestrator's relays of them, change no state
  and are left out.
\<close>

record Agent =
  agentName :: string
  agentType :: AgentType
  agentStatus :: AgentStatus
  currentTask :: "string option"
  processedCases :: nat
  averageProcessingTime :: real

record BaseAgent =
  agent :: Agent
  isProcessing :: bool

type_synonym TaskOutcome = "(string + LegalCase) \<times> nat"

definition newAgent :: "string \<Rightarrow> AgentType \<Rightarrow> BaseAgent" where
  "newAgent name type =
     \<lparr> agent = \<lparr> agentName = name, agentType = type, agentStatus = Idle, currentTask = None,
                 processedCases = 0, averageProcessingTime = 0 \<rparr>,
       isProcessing = False \<rparr>"

definition setStatus :: "AgentStatus \<Rightarrow> BaseAgent \<Rightarrow> BaseAgent" where
  "setStatus st a = a\<lparr> agent := (agent a)\<lparr> agentStatus := st \<rparr> \<rparr>"

definition updateMetrics :: "nat \<Rightarrow> BaseAgent \<Rightarrow> BaseAgent" where
  "updateMetrics processingTime a =
     (let n = processedCases (agent a) + 1
      in a\<lparr> agent := (agent a)\<lparr>
             processedCases := n,
             averageProcessingTime :=
               (if n = 1 then real processingTime
                else (averageProcessingTime (agent a) * real (n - 1) + real processingTime)
                       / real n) \<rparr> \<rparr>)"

text \<open>
  \<open>process\<close> in two halves. \<open>processBegin\<close> is what runs before the task is awaited: the
  busy check and the flags. \<open>processEnd\<close> is what runs when the task has resolved: the
  \<open>try\<close> branch or the \<open>catch\<close> branch, then \<open>finally\<close>. A call made while another is
  unresolved meets the state \<open>processBegin\<close> left.
\<close>

definition processBegin :: "LegalCase \<Rightarrow> BaseAgent \<Rightarrow> string + BaseAgent" where
  "processBegin caseData a =
     (if isProcessing a
      then Inl (''Agent '' @ agentName (agent a) @ '' is already processing a case'')
      else Inr (a\<lparr> isProcessing := True,
                   agent := (agent a)\<lparr> agentStatus := Processing,
                     currentTask := Some (''Processing case '' @ caseId caseData) \<rparr> \<rparr>))"

definition processFinally :: "BaseAgent \<Rightarrow> BaseAgent" where
  "processFinally a =
     a\<lparr> isProcessing := False,
        agent := (agent a)\<lparr> currentTask := None,
          agentStatus := (if agentStatus (agent a) \<noteq> Error then Idle
                          else agentStatus (agent a)) \<rparr> \<rparr>"

definition processEnd :: "TaskOutcome \<Rightarrow> BaseAgent \<Rightarrow> (string + LegalCase) \<times> BaseAgent" where
  "processEnd outcome a =
     (case fst outcome of
        Inr result \<Rightarrow> (Inr result, processFinally (updateMetrics (snd outcome) a))
      | Inl err \<Rightarrow> (Inl err, processFinally (setStatus Error a)))"

definition process ::
  "(LegalCase \<Rightarrow> TaskOutcome) \<Rightarrow> LegalCase \<Rightarrow> BaseAgent \<Rightarrow> (string + LegalCase) \<times> BaseAgent" where
  "process task caseData a =
     (case processBegin caseData a of
        Inl err \<Rightarrow> (Inl err, a)
      | Inr a1 \<Rightarrow> processEnd (task caseData) a1)"

definition isAvailable :: "BaseAgent \<Rightarrow> bool" where
  "isAvailable a = (agentStatus (agent a) = Idle \<and> \<not> isProcessing a)"

definition intakeAgent :: BaseAgent where
  "intakeAgent = newAgent ''Legal Intake Agent'' IntakeAgentT"

definition researchAgent :: BaseAgent where
  "researchAgent = newAgent ''Legal Research Agent'' ResearchAgentT"

definition documentAgent :: BaseAgent where
  "documentAgent = newAgent ''Legal Document Agent'' DocumentAgentT"

subsection \<open>Recovering from an unusable reply of the generation service\<close>

text \<open>
  A reply of the generation service, as the agents read it: the call threw, or the text
  did not parse as the structure asked for (\<open>JSON.parse\<close> or the reading of the parsed
  value threw), or it parsed. A field that is absent or falsy is \<open>None\<close>.
\<close>

datatype 'a AiReply = CallFailed string | Unparsable string | Parsed 'a

record PlaintiffAnalysis =
  recommendedUrgency :: "Urgency option"
  enhancedDescription :: "string option"

record ComplexityAnalysis =
  complexityAssessment :: "Complexity option"
  analysedDuration :: "real option"
  suggestedPrecedents :: "string list option"
  relevantStatutes :: "string list option"

record RankedPrecedent =
  rankedCaseName :: string
  rankedPrinciple :: string
  rankedRelevance :: real

record ExtractedLaw =
  lawCitation :: string
  lawSection :: string
  lawApplication :: string

definition orElse :: "'a option \<Rightarrow> 'a \<Rightarrow> 'a" where
  "orElse v d = (case v of None \<Rightarrow> d | Some x \<Rightarrow> x)"

definition orElseText :: "string option \<Rightarrow> string \<Rightarrow> string" where
  "orElseText v d = (case v of None \<Rightarrow> d | Some x \<Rightarrow> if x = [] then d else x)"

definition orElseNumber :: "real option \<Rightarrow> real \<Rightarrow> real" where
  "orElseNumber v d = (case v of None \<Rightarrow> d | Some x \<Rightarrow> if x = 0 then d else x)"

definition replyValue :: "'a AiReply \<Rightarrow> string + 'a" where
  "replyValue reply =
     (case reply of CallFailed err \<Rightarrow> Inl err | Unparsable err \<Rightarrow> Inl err | Parsed v \<Rightarrow> Inr v)"

definition enhancePlaintiffInfo :: "PlaintiffAnalysis AiReply \<Rightarrow> PlaintiffInfo \<Rightarrow> string + PlaintiffInfo" where
  "enhancePlaintiffInfo reply info =
     (case replyValue reply of
        Inr analysis \<Rightarrow>
          Inr (info\<lparr> urgency := orElse (recommendedUrgency analysis) (urgency info),
                     description := orElseText (enhancedDescription analysis) (description info) \<rparr>)
      | Inl err \<Rightarrow> Inr info)"

definition analyzeCaseComplexity :: "ComplexityAnalysis AiReply \<Rightarrow> CaseDetails \<Rightarrow> string + CaseDetails" where
  "analyzeCaseComplexity reply details =
     (case replyValue reply of
        Inr analysis \<Rightarrow>
          Inr (details\<lparr>
            complexity := orElse (complexityAssessment analysis) (complexity details),
            estimatedDuration := orElseNumber (analysedDuration analysis) (estimatedDuration details),
            precedents := orElse (suggestedPrecedents analysis) (precedents details),
            relevantLaws := orElse (relevantStatutes analysis) (relevantLaws details) \<rparr>)
      | Inl err \<Rightarrow> Inr details)"

definition identifyKeyPrecedents ::
  "RankedPrecedent list AiReply \<Rightarrow> RetrievedDocument list \<Rightarrow> string + string list" where
  "identifyKeyPrecedents reply docs =
     (let precedentDocs = take 15 (filter (\<lambda>doc. metaType (retMetadata doc) = Some ''case-law'') docs)
      in if length precedentDocs = 0 then Inr []
         else (case replyValue reply of
                 Inr ranked \<Rightarrow>
                   Inr (map (\<lambda>p. rankedCaseName p @ '' - '' @ rankedPrinciple p)
                          (filter (\<lambda>p. rankedRelevance p \<ge> 7) ranked))
               | Inl err \<Rightarrow> Inr (map retTitle (take 5 precedentDocs))))"

definition extractRelevantLaws ::
  "ExtractedLaw list AiReply \<Rightarrow> RetrievedDocument list \<Rightarrow> string + string list" where
  "extractRelevantLaws reply docs =
     (let statuteDocs = take 10 (filter (\<lambda>doc. metaType (retMetadata doc) = Some ''statute''
                                    \<or> metaType (retMetadata doc) = Some ''regulation'') docs)
      in if length statuteDocs = 0 then Inr []
         else (case replyValue reply of
                 Inr laws \<Rightarrow>
                   Inr (map (\<lambda>law. lawCitation law @ '' '' @ lawSection law @ '' - '' @ lawApplication law)
                          laws)
               | Inl err \<Rightarrow> Inr (map retTitle (take 5 statuteDocs))))"

subsection \<open>DocumentAgent: drafting\<close>

text \<open>
  \<open>generateDocument\<close> of the document service calls the generation service for the
  content and writes the file; its outcome for a type and a format is an input:
  \<open>Inl\<close> the message of the error it threw, \<open>Inr\<close> the document (a draft).
\<close>

type_synonym Generator = "DocumentType \<Rightarrow> DocumentFormat \<Rightarrow> string + Document"

fun includesText :: "string \<Rightarrow> string \<Rightarrow> bool" where
  "includesText pat [] = (pat = [])"
| "includesText pat (c # cs) = (take (length pat) (c # cs) = pat \<or> includesText pat cs)"

text \<open>\<open>validateDocument(...).isValid\<close>: no issue found. Suggestions are not issues.\<close>

definition isValid :: "Document \<Rightarrow> bool" where
  "isValid document =
     (\<not> length (docContent document) < 100 \<and>
      \<not> (docType document = Complaint \<and> \<not> includesText ''CAUSES OF ACTION'' (docContent document)))"

text \<open>One round of the loop over the types: the \<open>try\<close> block, and \<open>catch\<close> which only logs.\<close>

definition generateBoth :: "Generator \<Rightarrow> DocumentType \<Rightarrow> Document list" where
  "generateBoth gen dtype =
     (case gen dtype Pdf of
        Inl err \<Rightarrow> []
      | Inr pdfDocument \<Rightarrow>
          (case gen dtype Docx of
             Inl err \<Rightarrow> []
           | Inr docxDocument \<Rightarrow> [pdfDocument, docxDocument]))"

definition markValidated :: "Document \<Rightarrow> Document" where
  "markValidated document =
     document\<lparr> docStatus := (if \<not> isValid document then DocReview else DocApproved) \<rparr>"

definition documentExecuteTask :: "Generator \<Rightarrow> int \<Rightarrow> LegalCase \<Rightarrow> string + LegalCase" where
  "documentExecuteTask gen now caseData =
     (let documentsToGenerate = determineDocumentsNeeded caseData;
          generatedDocuments = concat (map (generateBoth gen) documentsToGenerate);
          validated = map markValidated generatedDocuments
      in Inr (caseData\<lparr> documents := documents caseData @ validated,
                        workflowStage := ReviewAndRevision,
                        updatedAt := now \<rparr>))"

text \<open>The drafting task as the agent framework runs it, taking \<open>ms\<close> milliseconds.\<close>

definition documentTask :: "Generator \<Rightarrow> int \<Rightarrow> nat \<Rightarrow> LegalCase \<Rightarrow> TaskOutcome" where
  "documentTask gen now ms caseData = (documentExecuteTask gen now caseData, ms)"

definition failingGenerator :: Generator where
  "failingGenerator dtype format =
     Inl ''Document generation failed: Gemini API error: quota exceeded''"

definition draftOf :: "DocumentType \<Rightarrow> DocumentFormat \<Rightarrow> Document" where
  "draftOf dtype format =
     \<lparr> docId = ''generated'', docCaseId = ''case-1'', docType = dtype,
       docTitle = ''Draft'', docContent = ''WHEREFORE'', docFormat = format, docVersion = 1,
       docStatus = DocDraft \<rparr>"

text \<open>A generator that fails for complaints only.\<close>

definition noComplaintGenerator :: Generator where
  "noComplaintGenerator dtype format =
     (if dtype = Complaint
      then Inl ''Document generation failed: Gemini API error: quota exceeded''
      else Inr (draftOf dtype format))"

definition failingTask :: "LegalCase \<Rightarrow> TaskOutcome" where
  "failingTask caseData =
     (Inl ''Plaintiff information validation failed: Validation error: email must be a valid email'', 12)"

section \<open>Workflow orchestrator\<close>

text \<open>
  The orchestrator owns the agents, the active workflows, the queue and what it has
  emitted so far (the list \<open>emitted\<close>, oldest first; an event carries the fields of its
  payload that are values, not the reference to the state object). A workflow id comes from
  the uuid generator and is an argument of \<open>startWorkflow\<close>. \<open>processWorkflow\<close> holds the
  state object of its workflow while it runs; operations run one at a time here, so that
  object is the entry of \<open>activeWorkflows\<close> under the workflow's id, and a write to it is
  a write to that entry.
\<close>

record WorkflowLog =
  logStage :: WorkflowStage
  logAgent :: string
  logAction :: string
  logDetails :: string
  logDuration :: nat

record WorkflowError =
  errStage :: WorkflowStage
  errAgent :: string
  errError :: string
  errSeverity :: Severity
  errResolved :: bool

record WorkflowState =
  wfCaseId :: string
  currentStage :: WorkflowStage
  completedStages :: "WorkflowStage list"
  progress :: int
  estimatedCompletion :: real
  logs :: "WorkflowLog list"
  errors :: "WorkflowError list"

datatype Event =
    WorkflowStarted string string
  | WorkflowProcessingRequired string
  | WorkflowProgress string string int WorkflowStage
  | WorkflowStageStarted string string WorkflowStage
  | WorkflowStageCompleted string string WorkflowStage nat
  | WorkflowStageFailed string string WorkflowStage string
  | WorkflowCompleted string string
  | WorkflowFailed string string string
  | WorkflowPaused string string
  | WorkflowCancelled string string

record Orchestrator =
  agents :: "string \<rightharpoonup> BaseAgent"
  activeWorkflows :: "string \<rightharpoonup> WorkflowState"
  workflowQueue :: "string list"
  queueProcessing :: bool
  emitted :: "Event list"

definition newOrchestrator :: Orchestrator where
  "newOrchestrator =
     \<lparr> agents = [''intake'' \<mapsto> intakeAgent, ''research'' \<mapsto> researchAgent,
                 ''document'' \<mapsto> documentAgent],
       activeWorkflows = Map.empty, workflowQueue = [], queueProcessing = False,
       emitted = [] \<rparr>"

definition emit :: "Event \<Rightarrow> Orchestrator \<Rightarrow> Orchestrator" where
  "emit e orch = orch\<lparr> emitted := emitted orch @ [e] \<rparr>"

text \<open>A write to the state object of workflow \<open>wid\<close>; nothing happens if there is none.\<close>

definition modifyWorkflow ::
  "string \<Rightarrow> (WorkflowState \<Rightarrow> WorkflowState) \<Rightarrow> Orchestrator \<Rightarrow> Orchestrator" where
  "modifyWorkflow wid f orch =
     (case activeWorkflows orch wid of
        None \<Rightarrow> orch
      | Some ws \<Rightarrow> orch\<lparr> activeWorkflows := (activeWorkflows orch)(wid \<mapsto> f ws) \<rparr>)"

definition getWorkflowStages :: "WorkflowStage list" where
  "getWorkflowStages =
     [PlaintiffIntake, LegalResearch, ArgumentGeneration, DocumentDrafting,
      ReviewAndRevision, FinalFormatting]"

fun stageName :: "WorkflowStage \<Rightarrow> string" where
  "stageName PlaintiffIntake = ''plaintiff-intake''"
| "stageName LegalResearch = ''legal-research''"
| "stageName ArgumentGeneration = ''argument-generation''"
| "stageName DocumentDrafting = ''document-drafting''"
| "stageName ReviewAndRevision = ''review-and-revision''"
| "stageName FinalFormatting = ''final-formatting''"
| "stageName Completed = ''completed''"

fun agentKeyForStage :: "WorkflowStage \<Rightarrow> string option" where
  "agentKeyForStage PlaintiffIntake = Some ''intake''"
| "agentKeyForStage LegalResearch = Some ''research''"
| "agentKeyForStage ArgumentGeneration = Some ''research''"
| "agentKeyForStage DocumentDrafting = Some ''document''"
| "agentKeyForStage ReviewAndRevision = Some ''document''"
| "agentKeyForStage FinalFormatting = Some ''document''"
| "agentKeyForStage Completed = None"

definition getAgentForStage :: "WorkflowStage \<Rightarrow> Orchestrator \<Rightarrow> (string \<times> BaseAgent) option" where
  "getAgentForStage stage orch =
     (case agentKeyForStage stage of
        None \<Rightarrow> None
      | Some key \<Rightarrow> map_option (Pair key) (agents orch key))"

text \<open>\<open>Array.prototype.indexOf\<close>: the first position of the element, or -1.\<close>

fun indexOf :: "'a list \<Rightarrow> 'a \<Rightarrow> int" where
  "indexOf [] x = -1"
| "indexOf (y # ys) x = (if y = x then 0 else (let i = indexOf ys x in if i < 0 then -1 else i + 1))"

text \<open>\<open>Math.round\<close> rounds to the nearest integer, a half upwards, as \<open>round\<close> does.\<close>

definition progressAt :: "WorkflowStage \<Rightarrow> int" where
  "progressAt stage =
     round ((real_of_int (indexOf getWorkflowStages stage) / real (length getWorkflowStages)) * 100)"

definition updateWorkflowProgress :: "string \<Rightarrow> WorkflowStage \<Rightarrow> Orchestrator \<Rightarrow> Orchestrator" where
  "updateWorkflowProgress wid stage orch =
     (case activeWorkflows orch wid of
        None \<Rightarrow> orch
      | Some ws \<Rightarrow>
          emit (WorkflowProgress wid (wfCaseId ws) (progressAt stage) stage)
            (modifyWorkflow wid (\<lambda>w. w\<lparr> progress := progressAt stage, currentStage := stage \<rparr>) orch))"

definition addWorkflowLog ::
  "string \<Rightarrow> WorkflowStage \<Rightarrow> string \<Rightarrow> string \<Rightarrow> string \<Rightarrow> nat \<Rightarrow> Orchestrator \<Rightarrow> Orchestrator" where
  "addWorkflowLog wid stage agnt action details duration orch =
     modifyWorkflow wid
       (\<lambda>w. w\<lparr> logs := logs w @ [\<lparr> logStage = stage, logAgent = agnt, logAction = action,
                                     logDetails = details, logDuration = duration \<rparr>] \<rparr>) orch"

definition addWorkflowError ::
  "string \<Rightarrow> WorkflowStage \<Rightarrow> string \<Rightarrow> string \<Rightarrow> Severity \<Rightarrow> Orchestrator \<Rightarrow> Orchestrator" where
  "addWorkflowError wid stage agnt err severity orch =
     modifyWorkflow wid
       (\<lambda>w. w\<lparr> errors := errors w @ [\<lparr> errStage = stage, errAgent = agnt, errError = err,
                                         errSeverity = severity, errResolved = False \<rparr>] \<rparr>) orch"

fun complexityMultiplier :: "Complexity \<Rightarrow> real" where
  "complexityMultiplier CxLow = 1"
| "complexityMultiplier CxMedium = 15 / 10"
| "complexityMultiplier CxHigh = 25 / 10"

fun categoryMultiplier :: "LegalCategory \<Rightarrow> real" where
  "categoryMultiplier CivilLitigation = 2"
| "categoryMultiplier ContractDispute = 15 / 10"
| "categoryMultiplier EmploymentLaw = 18 / 10"
| "categoryMultiplier PersonalInjury = 22 / 10"
| "categoryMultiplier IntellectualProperty = 25 / 10"
| "categoryMultiplier RealEstate = 13 / 10"
| "categoryMultiplier FamilyLaw = 17 / 10"
| "categoryMultiplier CriminalDefense = 28 / 10"
| "categoryMultiplier BusinessLaw = 14 / 10"
| "categoryMultiplier OtherCategory = 1"

definition calculateEstimatedCompletion :: "int \<Rightarrow> LegalCase \<Rightarrow> real" where
  "calculateEstimatedCompletion now caseData =
     (let baseMinutes = 30;
          estimatedMinutes = baseMinutes
            * complexityMultiplier (complexity (caseDetails caseData))
            * categoryMultiplier (category (caseDetails caseData))
      in real_of_int now + estimatedMinutes * 60 * 1000)"

text \<open>
  \<open>processQueue\<close> has no \<open>await\<close> in its loop: it takes the ids off the queue one by
  one, asks for the case of each by an event, and ends with the queue empty.
\<close>

fun drainQueue :: "string list \<Rightarrow> Orchestrator \<Rightarrow> Orchestrator" where
  "drainQueue [] orch = orch"
| "drainQueue (wid # rest) orch =
     drainQueue rest (if wid = [] then orch else emit (WorkflowProcessingRequired wid) orch)"

definition processQueue :: "Orchestrator \<Rightarrow> Orchestrator" where
  "processQueue orch =
     (if queueProcessing orch \<or> length (workflowQueue orch) = 0 then orch
      else (drainQueue (workflowQueue orch) (orch\<lparr> queueProcessing := True \<rparr>))
             \<lparr> workflowQueue := [], queueProcessing := False \<rparr>)"

definition startWorkflow :: "int \<Rightarrow> string \<Rightarrow> LegalCase \<Rightarrow> Orchestrator \<Rightarrow> string \<times> Orchestrator" where
  "startWorkflow now workflowId caseData orch =
     (let workflowState =
            \<lparr> wfCaseId = caseId caseData, currentStage = PlaintiffIntake, completedStages = [],
              progress = 0, estimatedCompletion = calculateEstimatedCompletion now caseData,
              logs = [], errors = [] \<rparr>;
          orch1 = orch\<lparr> activeWorkflows := (activeWorkflows orch)(workflowId \<mapsto> workflowState),
                        workflowQueue := workflowQueue orch @ [workflowId] \<rparr>;
          orch2 = addWorkflowLog workflowId PlaintiffIntake ''workflow-orchestrator'' ''started''
                    ''Workflow initiated'' 0 orch1;
          orch3 = emit (WorkflowStarted workflowId (caseId caseData)) orch2;
          orch4 = (if \<not> queueProcessing orch3 then processQueue orch3 else orch3)
      in (workflowId, orch4))"

text \<open>
  One round of the loop of \<open>processWorkflow\<close> for a stage that is not completed yet. The
  result is \<open>Inl\<close> when the round throws (out of the inner \<open>try\<close>, or for want of an
  agent), with the state as the round left it.
\<close>

definition runStage ::
  "(WorkflowStage \<Rightarrow> LegalCase \<Rightarrow> TaskOutcome) \<Rightarrow> string \<Rightarrow> WorkflowStage \<Rightarrow> LegalCase
     \<Rightarrow> Orchestrator \<Rightarrow> (string + LegalCase) \<times> Orchestrator" where
  "runStage tasks wid stage currentCase orch =
     (let orch1 = modifyWorkflow wid (\<lambda>w. w\<lparr> currentStage := stage \<rparr>) orch;
          orch2 = updateWorkflowProgress wid stage orch1;
          orch3 = emit (WorkflowStageStarted wid (caseId currentCase) stage) orch2
      in case getAgentForStage stage orch3 of
           None \<Rightarrow> (Inl (''No agent available for stage: '' @ stageName stage), orch3)
         | Some (key, a) \<Rightarrow>
             (case process (tasks stage) currentCase a of
                (Inr result, a') \<Rightarrow>
                  (let duration = snd (tasks stage currentCase);
                       orch4 = orch3\<lparr> agents := (agents orch3)(key \<mapsto> a') \<rparr>;
                       orch5 = modifyWorkflow wid
                                 (\<lambda>w. w\<lparr> completedStages := completedStages w @ [stage] \<rparr>) orch4;
                       orch6 = addWorkflowLog wid stage (agentName (agent a')) ''completed''
                                 ''Stage completed successfully'' duration orch5
                   in (Inr result,
                       emit (WorkflowStageCompleted wid (caseId result) stage duration) orch6))
              | (Inl err, a') \<Rightarrow>
                  (let orch4 = orch3\<lparr> agents := (agents orch3)(key \<mapsto> a') \<rparr>;
                       orch5 = addWorkflowError wid stage (agentName (agent a')) err SevHigh orch4
                   in (Inl err,
                       emit (WorkflowStageFailed wid (caseId currentCase) stage err) orch5))))"

definition stageCompleted :: "string \<Rightarrow> WorkflowStage \<Rightarrow> Orchestrator \<Rightarrow> bool" where
  "stageCompleted wid stage orch =
     (case activeWorkflows orch wid of
        None \<Rightarrow> False
      | Some ws \<Rightarrow> stage \<in> set (completedStages ws))"

fun runStages ::
  "(WorkflowStage \<Rightarrow> LegalCase \<Rightarrow> TaskOutcome) \<Rightarrow> string \<Rightarrow> WorkflowStage list \<Rightarrow> LegalCase
     \<Rightarrow> Orchestrator \<Rightarrow> (string + LegalCase) \<times> Orchestrator" where
  "runStages tasks wid [] currentCase orch = (Inr currentCase, orch)"
| "runStages tasks wid (stage # rest) currentCase orch =
     (if stageCompleted wid stage orch then runStages tasks wid rest currentCase orch
      else (case runStage tasks wid stage currentCase orch of
              (Inl err, orch') \<Rightarrow> (Inl err, orch')
            | (Inr result, orch') \<Rightarrow> runStages tasks wid rest result orch'))"

definition processWorkflow ::
  "(WorkflowStage \<Rightarrow> LegalCase \<Rightarrow> TaskOutcome) \<Rightarrow> string \<Rightarrow> LegalCase \<Rightarrow> Orchestrator
     \<Rightarrow> (string + LegalCase) \<times> Orchestrator" where
  "processWorkflow tasks wid caseData orch =
     (case activeWorkflows orch wid of
        None \<Rightarrow> (Inl (''Workflow '' @ wid @ '' not found''), orch)
      | Some ws0 \<Rightarrow>
          (case runStages tasks wid getWorkflowStages caseData orch of
             (Inr currentCase, orch1) \<Rightarrow>
               (let orch2 = modifyWorkflow wid
                              (\<lambda>w. w\<lparr> currentStage := Completed, progress := 100 \<rparr>) orch1;
                    orch3 = addWorkflowLog wid Completed ''workflow-orchestrator'' ''completed''
                              ''Workflow completed successfully'' 0 orch2
                in (Inr currentCase, emit (WorkflowCompleted wid (caseId currentCase)) orch3))
           | (Inl err, orch1) \<Rightarrow>
               (let orch2 = (case activeWorkflows orch1 wid of
                               None \<Rightarrow> orch1
                             | Some ws \<Rightarrow>
                                 addWorkflowError wid (currentStage ws) ''workflow-orchestrator''
                                   err SevCritical orch1)
                in (Inl err, emit (WorkflowFailed wid (caseId caseData) err) orch2))))"

definition pauseWorkflow :: "string \<Rightarrow> Orchestrator \<Rightarrow> (string + unit) \<times> Orchestrator" where
  "pauseWorkflow wid orch =
     (case activeWorkflows orch wid of
        None \<Rightarrow> (Inl (''Workflow '' @ wid @ '' not found''), orch)
      | Some ws \<Rightarrow>
          (Inr (),
           emit (WorkflowPaused wid (wfCaseId ws))
             (addWorkflowLog wid (currentStage ws) ''workflow-orchestrator'' ''paused''
                ''Workflow paused by user'' 0 orch)))"

definition cancelWorkflow :: "string \<Rightarrow> Orchestrator \<Rightarrow> (string + unit) \<times> Orchestrator" where
  "cancelWorkflow wid orch =
     (case activeWorkflows orch wid of
        None \<Rightarrow> (Inl (''Workflow '' @ wid @ '' not found''), orch)
      | Some ws \<Rightarrow>
          (let orch1 = addWorkflowLog wid (currentStage ws) ''workflow-orchestrator'' ''cancelled''
                         ''Workflow cancelled by user'' 0 orch;
               orch2 = orch1\<lparr> activeWorkflows := (activeWorkflows orch1)(wid := None) \<rparr>
           in (Inr (), emit (WorkflowCancelled wid (wfCaseId ws)) orch2)))"

subsection \<open>Sequences of operations\<close>

datatype Operation =
    OpStart int string LegalCase
  | OpProcess "WorkflowStage \<Rightarrow> LegalCase \<Rightarrow> TaskOutcome" string LegalCase
  | OpPause string
  | OpCancel string

fun applyOp :: "Operation \<Rightarrow> Orchestrator \<Rightarrow> Orchestrator" where
  "applyOp (OpStart now wid caseData) orch = snd (startWorkflow now wid caseData orch)"
| "applyOp (OpProcess tasks wid caseData) orch = snd (processWorkflow tasks wid caseData orch)"
| "applyOp (OpPause wid) orch = snd (pauseWorkflow wid orch)"
| "applyOp (OpCancel wid) orch = snd (cancelWorkflow wid orch)"

fun runOps :: "Operation list \<Rightarrow> Orchestrator \<Rightarrow> Orchestrator" where
  "runOps [] orch = orch"
| "runOps (op # ops) orch = runOps ops (applyOp op orch)"

text \<open>The ids of the workflows started so far, read off the events.\<close>

fun startedIds :: "Event list \<Rightarrow> string list" where
  "startedIds [] = []"
| "startedIds (WorkflowStarted wid cid # es) = wid # startedIds es"
| "startedIds (e # es) = startedIds es"

text \<open>
  The uuid generator gives an id once: in a sequence of operations, no \<open>startWorkflow\<close>
  gets the id of a workflow started before it.
\<close>

fun freshIds :: "Operation list \<Rightarrow> Orchestrator \<Rightarrow> bool" where
  "freshIds [] orch = True"
| "freshIds (OpStart now wid caseData # ops) orch =
     (wid \<notin> set (startedIds (emitted orch)) \<and>
      freshIds ops (applyOp (OpStart now wid caseData) orch))"
| "freshIds (op # ops) orch = freshIds ops (applyOp op orch)"

text \<open>The progress values announced for a workflow, oldest first.\<close>

fun progressTrace :: "string \<Rightarrow> Event list \<Rightarrow> int list" where
  "progressTrace wid [] = []"
| "progressTrace wid (WorkflowProgress w cid p stage # es) =
     (if w = wid then p # progressTrace wid es else progressTrace wid es)"
| "progressTrace wid (e # es) = progressTrace wid es"

fun completedEvents :: "string \<Rightarrow> Event list \<Rightarrow> nat" where
  "completedEvents wid [] = 0"
| "completedEvents wid (WorkflowCompleted w cid # es) =
     (if w = wid then Suc (completedEvents wid es) else completedEvents wid es)"
| "completedEvents wid (e # es) = completedEvents wid es"

definition errorsForStage :: "WorkflowStage \<Rightarrow> WorkflowState \<Rightarrow> WorkflowError list" where
  "errorsForStage stage ws = filter (\<lambda>e. errStage e = stage) (errors ws)"

subsection \<open>A concrete run\<close>

text \<open>Tasks that succeed in 40 ms, each marking the case with the stage that ran.\<close>

definition passingTasks :: "WorkflowStage \<Rightarrow> LegalCase \<Rightarrow> TaskOutcome" where
  "passingTasks stage caseData = (Inr (caseData\<lparr> workflowStage := stage \<rparr>), 40)"

text \<open>The same, but the research task throws: its retrieval call failed.\<close>

definition researchFails :: "WorkflowStage \<Rightarrow> LegalCase \<Rightarrow> TaskOutcome" where
  "researchFails stage caseData =
     (if stage = LegalResearch then (Inl ''Gemini API error: retrieval unavailable'', 7)
      else passingTasks stage caseData)"

definition demoCase :: LegalCase where
  "demoCase = sampleCase OtherCategory CxLow UrgLow"

definition startedOrchestrator :: Orchestrator where
  "startedOrchestrator = snd (startWorkflow 1000 ''wf-1'' demoCase newOrchestrator)"

text \<open>The workflow started, then processed with the research task failing, then processed again.\<close>

definition failedOrchestrator :: Orchestrator where
  "failedOrchestrator = snd (processWorkflow researchFails ''wf-1'' demoCase startedOrchestrator)"

definition resumedOrchestrator :: Orchestrator where
  "resumedOrchestrator = snd (processWorkflow passingTasks ''wf-1'' demoCase failedOrchestrator)"

definition startedLog :: WorkflowLog where
  "startedLog = \<lparr> logStage = PlaintiffIntake, logAgent = ''workflow-orchestrator'',
     logAction = ''started'', logDetails = ''Workflow initiated'', logDuration = 0 \<rparr>"

definition stageLog :: "WorkflowStage \<Rightarrow> string \<Rightarrow> WorkflowLog" where
  "stageLog stage agnt = \<lparr> logStage = stage, logAgent = agnt, logAction = ''completed'',
     logDetails = ''Stage completed successfully'', logDuration = 40 \<rparr>"

definition researchError :: "string \<Rightarrow> Severity \<Rightarrow> WorkflowError" where
  "researchError agnt severity =
     \<lparr> errStage = LegalResearch, errAgent = agnt,
       errError = ''Gemini API error: retrieval unavailable'', errSeverity = severity,
       errResolved = False \<rparr>"

definition failedWorkflow :: WorkflowState where
  "failedWorkflow =
     \<lparr> wfCaseId = ''case-1'', currentStage = LegalResearch,
       completedStages = [PlaintiffIntake], progress = 17, estimatedCompletion = 1801000,
       logs = [startedLog, stageLog PlaintiffIntake ''Legal Intake Agent''],
       errors = [researchError ''Legal Research Agent'' SevHigh,
                 researchError ''workflow-orchestrator'' SevCritical] \<rparr>"

subsection \<open>Invariants\<close>

text \<open>
  What holds of a workflow between two operations: the completed stages are the first
  \<open>n\<close> stages of the pipeline, in order; while \<open>n < 6\<close> the current stage is the next one
  and the progress is that stage's; at \<open>n = 6\<close> the workflow is completed, at 100.
\<close>

definition workflowInv :: "WorkflowState \<Rightarrow> bool" where
  "workflowInv ws =
     (\<exists>n. n \<le> 6 \<and> completedStages ws = take n getWorkflowStages \<and>
        (if n < 6
         then currentStage ws = getWorkflowStages ! n \<and>
              progress ws = progressAt (getWorkflowStages ! n)
         else currentStage ws = Completed \<and> progress ws = 100))"

text \<open>
  What holds of the orchestrator between two operations: the progress values announced
  for a workflow never go down and end at or below its current progress; a workflow that
  was never started is not active and has no progress announced.
\<close>

definition orchInv :: "Orchestrator \<Rightarrow> bool" where
  "orchInv orch =
     (\<forall>wid. sorted (progressTrace wid (emitted orch)) \<and>
        (wid \<notin> set (startedIds (emitted orch)) \<longrightarrow>
           progressTrace wid (emitted orch) = [] \<and> activeWorkflows orch wid = None) \<and>
        (\<forall>ws. activeWorkflows orch wid = Some ws \<longrightarrow>
           workflowInv ws \<and> sorted (progressTrace wid (emitted orch) @ [progress ws])))"

section \<open>Properties of the document list\<close>

lemma uniqueInOrder_set: "set (uniqueInOrder seen xs) = set xs - set seen"
  by (induction seen xs rule: uniqueInOrder.induct) auto

lemma uniqueInOrder_distinct: "distinct (uniqueInOrder seen xs)"
  by (induction seen xs rule: uniqueInOrder.induct) (auto simp: uniqueInOrder_set)

lemma uniqueInOrder_cong:
  "set seen = set seen' \<Longrightarrow> uniqueInOrder seen xs = uniqueInOrder seen' xs"
proof (induction xs arbitrary: seen seen')
  case Nil
  show ?case by simp
next
  case (Cons a xs)
  have mem: "a \<in> set seen \<longleftrightarrow> a \<in> set seen'"
    by (simp only: Cons.prems)
  have "set (seen @ [a]) = set (seen' @ [a])"
    by (simp only: set_append Cons.prems)
  then have ext: "uniqueInOrder (seen @ [a]) xs = uniqueInOrder (seen' @ [a]) xs"
    by (rule Cons.IH)
  have same: "uniqueInOrder seen xs = uniqueInOrder seen' xs"
    using Cons.prems by (rule Cons.IH)
  show ?case
    by (simp only: uniqueInOrder.simps mem ext same)
qed

lemma uniqueInOrder_snoc:
  "uniqueInOrder (seen @ [x]) xs = uniqueInOrder seen (filter (\<lambda>y. y \<noteq> x) xs)"
proof (induction xs arbitrary: seen)
  case Nil
  then show ?case by simp
next
  case (Cons a xs)
  have swap: "uniqueInOrder (seen @ [x, a]) xs = uniqueInOrder ((seen @ [a]) @ [x]) xs"
    by (rule uniqueInOrder_cong) auto
  show ?case using Cons.IH [of seen] Cons.IH [of "seen @ [a]"] swap by auto
qed

lemma uniqueInOrder_filter:
  "uniqueInOrder seen (x # xs) =
     (if x \<in> set seen then uniqueInOrder seen xs
      else x # uniqueInOrder seen (filter (\<lambda>y. y \<noteq> x) xs))"
  by (simp add: uniqueInOrder_snoc)

text \<open>
  Keeping first occurrences is reversing, keeping last occurrences (\<open>remdups\<close>), and
  reversing again.
\<close>

lemma remdups_snoc: "remdups (ys @ [x]) = filter (\<lambda>y. y \<noteq> x) (remdups ys) @ [x]"
  by (induction ys) auto

lemma keepFirst_Cons:
  "rev (remdups (rev (x # xs))) = x # filter (\<lambda>y. y \<noteq> x) (rev (remdups (rev xs)))"
  by (simp add: remdups_snoc rev_filter)

lemma uniqueInOrder_keepFirst:
  "uniqueInOrder seen xs = filter (\<lambda>y. y \<notin> set seen) (rev (remdups (rev xs)))"
proof (induction xs arbitrary: seen)
  case Nil
  show ?case by simp
next
  case (Cons x xs)
  show ?case
  proof (cases "x \<in> set seen")
    case True
    then have "filter (\<lambda>y. y \<notin> set seen) (filter (\<lambda>y. y \<noteq> x) (rev (remdups (rev xs))))
        = filter (\<lambda>y. y \<notin> set seen) (rev (remdups (rev xs)))"
      by (auto intro: filter_cong)
    with True Cons.IH [of seen] show ?thesis
      by (simp only: keepFirst_Cons uniqueInOrder.simps if_True filter.simps) simp
  next
    case False
    have "filter (\<lambda>y. y \<notin> set (seen @ [x])) (rev (remdups (rev xs)))
        = filter (\<lambda>y. y \<notin> set seen) (filter (\<lambda>y. y \<noteq> x) (rev (remdups (rev xs))))"
      by (auto intro: filter_cong)
    with False Cons.IH [of "seen @ [x]"] show ?thesis
      by (simp only: keepFirst_Cons uniqueInOrder.simps if_False filter.simps) simp
  qed
qed

lemma fromSet_keepFirst: "fromSet xs = rev (remdups (rev xs))"
  by (simp add: fromSet_def uniqueInOrder_keepFirst)

lemma determineDocumentsNeeded_built:
  "determineDocumentsNeeded c =
     fromSet ((if urgency (plaintiffInfo c) = UrgCritical then [Motion] else [])
        @ categoryDocuments (category (caseDetails c))
        @ (if complexity (caseDetails c) = CxHigh then [Brief] else []))"
  by (simp add: determineDocumentsNeeded_def Let_def)

lemma determineDocumentsNeeded_sample:
  "determineDocumentsNeeded (sampleCase cat cx urg) =
     fromSet ((if urg = UrgCritical then [Motion] else []) @ categoryDocuments cat
        @ (if cx = CxHigh then [Brief] else []))"
  by (simp add: determineDocumentsNeeded_built sampleCase_def)

text \<open>
  C7. The document list depends on the case only through its category, complexity and
  urgency; a medium, medium-urgency contract dispute needs complaint, motion and legal
  memo; a high-complexity, critical personal-injury case needs motion, complaint,
  discovery request, evidence summary and brief. The list has no duplicates, and it is
  the list built (the motion first if the urgency is critical, then the types of the
  category, then the brief if the complexity is high) with every type kept where it
  first stands and dropped where it stands again. The types of each of the ten
  categories are as the table has them; each rule applies on its own (a brief appended
  for high complexity alone, a motion put first for critical urgency alone); and where a
  rule adds a type the category has already, the first one stays: a critical family-law
  case needs motion, then complaint.
\<close>

theorem determineDocumentsNeeded_pure:
  "(category (caseDetails c) = category (caseDetails c') \<and>
    complexity (caseDetails c) = complexity (caseDetails c') \<and>
    urgency (plaintiffInfo c) = urgency (plaintiffInfo c')
      \<longrightarrow> determineDocumentsNeeded c = determineDocumentsNeeded c') \<and>
   determineDocumentsNeeded (sampleCase ContractDispute CxMedium UrgMedium)
     = [Complaint, Motion, LegalMemo] \<and>
   determineDocumentsNeeded (sampleCase PersonalInjury CxHigh UrgCritical)
     = [Motion, Complaint, DiscoveryRequest, EvidenceSummary, Brief] \<and>
   distinct (determineDocumentsNeeded c) \<and>
   fromSet (x # xs) = x # fromSet (filter (\<lambda>y. y \<noteq> x) xs) \<and>
   determineDocumentsNeeded c =
     rev (remdups (rev
       ((if urgency (plaintiffInfo c) = UrgCritical then [Motion] else [])
        @ categoryDocuments (category (caseDetails c))
        @ (if complexity (caseDetails c) = CxHigh then [Brief] else [])))) \<and>
   determineDocumentsNeeded (sampleCase CivilLitigation CxLow UrgLow)
     = [Complaint, DiscoveryRequest] \<and>
   determineDocumentsNeeded (sampleCase ContractDispute CxLow UrgLow)
     = [Complaint, Motion, LegalMemo] \<and>
   determineDocumentsNeeded (sampleCase EmploymentLaw CxLow UrgLow)
     = [Complaint, DiscoveryRequest, LegalMemo] \<and>
   determineDocumentsNeeded (sampleCase PersonalInjury CxLow UrgLow)
     = [Complaint, DiscoveryRequest, EvidenceSummary] \<and>
   determineDocumentsNeeded (sampleCase IntellectualProperty CxLow UrgLow)
     = [Complaint, Motion, Brief] \<and>
   determineDocumentsNeeded (sampleCase RealEstate CxLow UrgLow) = [Contract, LegalMemo] \<and>
   determineDocumentsNeeded (sampleCase FamilyLaw CxLow UrgLow) = [Complaint, Motion] \<and>
   determineDocumentsNeeded (sampleCase CriminalDefense CxLow UrgLow) = [Motion, Brief] \<and>
   determineDocumentsNeeded (sampleCase BusinessLaw CxLow UrgLow) = [Contract, LegalMemo] \<and>
   determineDocumentsNeeded (sampleCase OtherCategory CxLow UrgLow) = [LegalMemo] \<and>
   determineDocumentsNeeded (sampleCase CivilLitigation CxHigh UrgLow)
     = [Complaint, DiscoveryRequest, Brief] \<and>
   determineDocumentsNeeded (sampleCase CivilLitigation CxLow UrgCritical)
     = [Motion, Complaint, DiscoveryRequest] \<and>
   determineDocumentsNeeded (sampleCase FamilyLaw CxLow UrgCritical) = [Motion, Complaint] \<and>
   determineDocumentsNeeded (sampleCase CriminalDefense CxHigh UrgLow) = [Motion, Brief] \<and>
   determineDocumentsNeeded (sampleCase IntellectualProperty CxHigh UrgCritical)
     = [Motion, Complaint, Brief]"
proof -
  have pure: "category (caseDetails c) = category (caseDetails c') \<and>
      complexity (caseDetails c) = complexity (caseDetails c') \<and>
      urgency (plaintiffInfo c) = urgency (plaintiffInfo c')
        \<longrightarrow> determineDocumentsNeeded c = determineDocumentsNeeded c'"
    by (simp add: determineDocumentsNeeded_def)
  have dist: "distinct (determineDocumentsNeeded c)"
    by (simp add: determineDocumentsNeeded_def fromSet_def Let_def uniqueInOrder_distinct)
  have order: "fromSet (x # xs) = x # fromSet (filter (\<lambda>y. y \<noteq> x) xs)"
    unfolding fromSet_def by (subst uniqueInOrder_filter) simp
  have built: "determineDocumentsNeeded c =
     rev (remdups (rev
       ((if urgency (plaintiffInfo c) = UrgCritical then [Motion] else [])
        @ categoryDocuments (category (caseDetails c))
        @ (if complexity (caseDetails c) = CxHigh then [Brief] else []))))"
    by (simp only: determineDocumentsNeeded_built fromSet_keepFirst)
  note ev = determineDocumentsNeeded_sample fromSet_def
  have ex: "determineDocumentsNeeded (sampleCase ContractDispute CxMedium UrgMedium)
      = [Complaint, Motion, LegalMemo]"
    "determineDocumentsNeeded (sampleCase PersonalInjury CxHigh UrgCritical)
      = [Motion, Complaint, DiscoveryRequest, EvidenceSummary, Brief]"
    by (simp_all add: ev)
  have table: "determineDocumentsNeeded (sampleCase CivilLitigation CxLow UrgLow)
       = [Complaint, DiscoveryRequest]"
    "determineDocumentsNeeded (sampleCase ContractDispute CxLow UrgLow)
       = [Complaint, Motion, LegalMemo]"
    "determineDocumentsNeeded (sampleCase EmploymentLaw CxLow UrgLow)
       = [Complaint, DiscoveryRequest, LegalMemo]"
    "determineDocumentsNeeded (sampleCase PersonalInjury CxLow UrgLow)
       = [Complaint, DiscoveryRequest, EvidenceSummary]"
    "determineDocumentsNeeded (sampleCase IntellectualProperty CxLow UrgLow)
       = [Complaint, Motion, Brief]"
    "determineDocumentsNeeded (sampleCase RealEstate CxLow UrgLow) = [Contract, LegalMemo]"
    "determineDocumentsNeeded (sampleCase FamilyLaw CxLow UrgLow) = [Complaint, Motion]"
    "determineDocumentsNeeded (sampleCase CriminalDefense CxLow UrgLow) = [Motion, Brief]"
    "determineDocumentsNeeded (sampleCase BusinessLaw CxLow UrgLow) = [Contract, LegalMemo]"
    "determineDocumentsNeeded (sampleCase OtherCategory CxLow UrgLow) = [LegalMemo]"
    by (simp_all add: ev)
  have rules: "determineDocumentsNeeded (sampleCase CivilLitigation CxHigh UrgLow)
       = [Complaint, DiscoveryRequest, Brief]"
    "determineDocumentsNeeded (sampleCase CivilLitigation CxLow UrgCritical)
       = [Motion, Complaint, DiscoveryRequest]"
    "determineDocumentsNeeded (sampleCase FamilyLaw CxLow UrgCritical) = [Motion, Complaint]"
    "determineDocumentsNeeded (sampleCase CriminalDefense CxHigh UrgLow) = [Motion, Brief]"
    "determineDocumentsNeeded (sampleCase IntellectualProperty CxHigh UrgCritical)
       = [Motion, Complaint, Brief]"
    by (simp_all add: ev)
  from pure ex dist order built table rules show ?thesis
    by (intro conjI)
qed

theorem determineDocumentsNeeded_pure_witness:
  "determineDocumentsNeeded (sampleCase FamilyLaw CxHigh UrgCritical)
     = determineDocumentsNeeded
         ((sampleCase FamilyLaw CxHigh UrgCritical)\<lparr> caseId := ''case-2'', updatedAt := 7 \<rparr>) \<and>
   determineDocumentsNeeded (sampleCase FamilyLaw CxHigh UrgCritical)
     = [Motion, Complaint, Brief] \<and>
   rev (remdups (rev [Motion, Complaint, Motion, Brief])) = [Motion, Complaint, Brief]"
proof -
  let ?c = "sampleCase FamilyLaw CxHigh UrgCritical"
  let ?c' = "?c\<lparr> caseId := ''case-2'', updatedAt := 7 \<rparr>"
  have hyp: "category (caseDetails ?c) = category (caseDetails ?c') \<and>
      complexity (caseDetails ?c) = complexity (caseDetails ?c') \<and>
      urgency (plaintiffInfo ?c) = urgency (plaintiffInfo ?c')"
    by simp
  have same: "determineDocumentsNeeded ?c = determineDocumentsNeeded ?c'"
    using determineDocumentsNeeded_pure [of ?c ?c', THEN conjunct1] hyp by (rule mp)
  have val: "determineDocumentsNeeded ?c = [Motion, Complaint, Brief]"
    by (simp add: determineDocumentsNeeded_def sampleCase_def fromSet_def)
  have keep: "rev (remdups (rev [Motion, Complaint, Motion, Brief])) = [Motion, Complaint, Brief]"
    by simp
  from same val keep show ?thesis by (intro conjI)
qed

section \<open>Properties of the retrieval engine\<close>

subsection \<open>The hash-based embedder\<close>

lemma length_getMockEmbedding: "length (getMockEmbedding t) = 1536"
  by (simp add: getMockEmbedding_def vectorDimension_def Let_def)

lemma getEmbedding_mock:
  "\<not> apiKeySet env \<or> isl (embeddingsCreate env (take 8000 t)) \<Longrightarrow>
     getEmbedding env t = getMockEmbedding t"
  by (auto simp: getEmbedding_def isl_def split: sum.splits)

lemma simpleHash_range: "0 \<le> simpleHash str \<and> simpleHash str \<le> 2 ^ 31"
proof -
  have "- (2 ^ 31) \<le> sint (foldl hashStep 0 str)"
    using sint_ge [of "foldl hashStep 0 str"] by simp
  moreover have "sint (foldl hashStep 0 str) < 2 ^ 31"
    using sint_lt [of "foldl hashStep 0 str"] by simp
  ultimately show ?thesis unfolding simpleHash_def by linarith
qed

text \<open>
  C10. The hash-based fallback embedder is a function of the input text alone: its vector
  has 1536 components, component \<open>i\<close> is \<open>sin (hash \<times> (i + 1)) \<times> 0.1\<close> for the hash of
  the text, and whenever the fallback is the active strategy (no credentials, or the
  backend call fails), in whatever environment, \<open>getEmbedding\<close> returns that vector, so two
  calls with the same text return the same vector.
\<close>

theorem mock_embedding_deterministic:
  "length (getMockEmbedding t) = 1536 \<and>
   (\<forall>i < 1536. getMockEmbedding t ! i = sin (of_int (simpleHash t * (int i + 1))) * (1 / 10)) \<and>
   ((\<not> apiKeySet env \<or> isl (embeddingsCreate env (take 8000 t))) \<and>
    (\<not> apiKeySet env' \<or> isl (embeddingsCreate env' (take 8000 t)))
      \<longrightarrow> getEmbedding env t = getMockEmbedding t \<and>
          getEmbedding env' t = getEmbedding env t)"
proof -
  have nth: "\<forall>i < 1536. getMockEmbedding t ! i = sin (of_int (simpleHash t * (int i + 1))) * (1 / 10)"
    by (simp add: getMockEmbedding_def vectorDimension_def Let_def)
  show ?thesis
    using length_getMockEmbedding [of t] nth getEmbedding_mock [of env t]
      getEmbedding_mock [of env' t]
    by simp
qed

lemma simpleHash_hi: "simpleHash [104, 105] = 3329"
  by (simp add: simpleHash_def hashStep_def)

theorem mock_embedding_deterministic_witness:
  "getEmbedding (demoEnv\<lparr> apiKeySet := True \<rparr>) [104, 105] = getEmbedding demoEnv [104, 105] \<and>
   length (getEmbedding demoEnv [104, 105]) = 1536"
proof -
  let ?e = "demoEnv"
  let ?e' = "demoEnv\<lparr> apiKeySet := True \<rparr>"
  have h: "(\<not> apiKeySet ?e \<or> isl (embeddingsCreate ?e (take 8000 [104, 105]))) \<and>
    (\<not> apiKeySet ?e' \<or> isl (embeddingsCreate ?e' (take 8000 [104, 105])))"
    by (simp add: demoEnv_def)
  from mock_embedding_deterministic [of "[104, 105]" ?e ?e'] h
  show ?thesis by simp
qed


subsection \<open>The service run in the concrete environment\<close>

lemma demoService_eq:
  "demoService =
     \<lparr> vectorIndex = Some [(getMockEmbedding [104, 105], 0)],
       ragDocuments = [(0, storeDocument demoDocument 0 0)],
       isInitialized = True \<rparr>"
  by (simp add: demoService_def addDocument_def ensureInitialized_def initialize_def
      loadOrCreateIndex_def loadDocuments_def addDocumentTry_def newService_def demoEnv_def
      getEmbedding_def demoDocument_def Let_def)


text \<open>
  A request with \<open>maxResults = 0\<close>: the default 10 replaces the 0, the index is asked for
  10 neighbours, and the one indexed document comes back. One item, more than the 0 asked for.
\<close>

theorem query_zero_maxResults_counterexample:
  "fst (query demoEnv ((plainQuery [104, 105])\<lparr> maxResults := Some 0 \<rparr>) demoService) =
     Inr \<lparr> resDocuments =
             [\<lparr> retId = ''doc-1'', retTitle = ''Statute of Frauds'', retContent = [104, 105],
                retSource = ''statutes/frauds.txt'', relevanceScore = 1,
                retMetadata = \<lparr> metaType = Some ''statute'', metaJurisdiction = Some ''Federal'',
                                metaDate = None \<rparr> \<rparr>],
           totalResults = 1, queryTime = 5, confidence = 1 \<rparr>"
  by (simp add: demoService_eq query_def ensureInitialized_def queryTry_def searchSimilar_def
      scoreNeighbour_def applyFilters_def toRetrieved_def orDefaultNat_def orDefaultReal_def
      plainQuery_def demoEnv_def getEmbedding_def demoDocument_def List.map_filter_def Let_def
      storeDocument_def withScore_def InputDocument.extend_def StoredDocument.extend_def)

text \<open>
  A service not yet initialized, where no index file can be read and the library cannot
  make a new index: the lazy initialization at the head of \<open>query\<close> is outside its
  \<open>try\<close> block, and the error leaves \<open>query\<close>.
\<close>

theorem query_initialization_counterexample:
  "fst (query noIndexEnv (plainQuery [104, 105]) newService) =
     Inl ''RAG Service initialization failed: index library unavailable''"
  by (simp add: query_def ensureInitialized_def initialize_def loadOrCreateIndex_def
      newService_def demoEnv_def noIndexEnv_def)


subsection \<open>Threshold and result count\<close>

lemma scoreNeighbour_Some:
  "scoreNeighbour docs thr n = Some d \<Longrightarrow> thr \<le> score d"
  by (auto simp: scoreNeighbour_def Let_def withScore_def StoredDocument.extend_def split: option.splits if_splits)

lemma length_map_filter_le: "length (List.map_filter f xs) \<le> length xs"
  by (simp add: List.map_filter_def)

lemma mem_map_filter: "y \<in> set (List.map_filter f xs) \<longleftrightarrow> (\<exists>x \<in> set xs. f x = Some y)"
  by (induction xs) (auto split: option.splits)

lemma searchSimilar_scores:
  "searchSimilar env st q k thr = Inr rs \<Longrightarrow> d \<in> set rs \<Longrightarrow> thr \<le> score d"
  by (auto simp: searchSimilar_def mem_map_filter split: option.splits if_splits sum.splits
      dest: scoreNeighbour_Some)

lemma searchSimilar_length:
  assumes "searchSimilar env st q k thr = Inr rs"
    and "\<And>ix ns. searchKnn env ix q k = Inr ns \<Longrightarrow> length ns \<le> k"
  shows "length rs \<le> k"
proof (cases "vectorIndex st")
  case None
  with assms(1) show ?thesis by (simp add: searchSimilar_def)
next
  case (Some ix)
  show ?thesis
  proof (cases "length (ragDocuments st) = 0")
    case True
    with Some assms(1) show ?thesis by (simp add: searchSimilar_def)
  next
    case False
    with Some assms(1) obtain ns where ns: "searchKnn env ix q k = Inr ns"
      and rs: "rs = List.map_filter (scoreNeighbour (ragDocuments st) thr) ns"
      by (auto simp: searchSimilar_def split: sum.splits)
    have "length rs \<le> length ns" unfolding rs by (rule length_map_filter_le)
    also have "length ns \<le> k" using ns by (rule assms(2))
    finally show ?thesis .
  qed
qed

lemma applyFilters_subset: "set (applyFilters rs fs) \<subseteq> set rs"
  by (auto simp: applyFilters_def split: option.splits)

lemma applyFilters_length: "length (applyFilters rs fs) \<le> length rs"
  by (auto simp: applyFilters_def split: option.splits)

lemma orDefaultReal_ge: "threshold request = Some t \<Longrightarrow> t \<le> orDefaultReal (threshold request) (7 / 10)"
  by (simp add: orDefaultReal_def)

lemma queryTry_documents:
  assumes "queryTry env request st = Inr result"
  obtains rs where
    "searchSimilar env st (getEmbedding env (queryText request))
       (orDefaultNat (maxResults request) 10) (orDefaultReal (threshold request) (7 / 10)) = Inr rs"
    and "resDocuments result = map toRetrieved (applyFilters rs (filters request))"
    and "totalResults result = length (resDocuments result)"
  using assms by (auto simp: queryTry_def Let_def split: sum.splits)

lemma query_cases:
  assumes "fst (query env request st) = Inr result"
  shows "queryTry env request (snd (ensureInitialized env st)) = Inr result \<or> result = emptyResult env"
  using assms by (auto simp: query_def split: prod.splits sum.splits)

text \<open>
  C6, as amended. A result of \<open>query\<close> holds no item whose score is below the threshold in
  force, which is the requested one, or 0.7 when none or 0 was requested; so no item is
  below a requested threshold. If the index library answers a \<open>k\<close>-neighbour search with
  at most \<open>k\<close> neighbours, the result has at most as many items as the limit in force:
  the requested \<open>maxResults\<close>, or 10 when none or 0 was requested.
\<close>

theorem query_threshold_and_limit:
  "fst (query env request st) = Inr result \<longrightarrow>
     (\<forall>d \<in> set (resDocuments result).
        orDefaultReal (threshold request) (7 / 10) \<le> relevanceScore d \<and>
        (\<forall>t. threshold request = Some t \<longrightarrow> t \<le> relevanceScore d)) \<and>
     ((\<forall>ix q k ns. searchKnn env ix q k = Inr ns \<longrightarrow> length ns \<le> k)
        \<longrightarrow> length (resDocuments result) \<le> orDefaultNat (maxResults request) 10)"
proof
  assume res: "fst (query env request st) = Inr result"
  let ?st = "snd (ensureInitialized env st)"
  let ?thr = "orDefaultReal (threshold request) (7 / 10)"
  let ?k = "orDefaultNat (maxResults request) 10"
  from query_cases [OF res] show
    "(\<forall>d \<in> set (resDocuments result).
        ?thr \<le> relevanceScore d \<and> (\<forall>t. threshold request = Some t \<longrightarrow> t \<le> relevanceScore d)) \<and>
     ((\<forall>ix q k ns. searchKnn env ix q k = Inr ns \<longrightarrow> length ns \<le> k)
        \<longrightarrow> length (resDocuments result) \<le> ?k)"
  proof
    assume "queryTry env request ?st = Inr result"
    then obtain rs where
      rs: "searchSimilar env ?st (getEmbedding env (queryText request)) ?k ?thr = Inr rs"
      and docs: "resDocuments result = map toRetrieved (applyFilters rs (filters request))"
      by (rule queryTry_documents)
    have scores: "?thr \<le> relevanceScore d" if "d \<in> set (resDocuments result)" for d
    proof -
      from that docs obtain r where r: "r \<in> set (applyFilters rs (filters request))"
        and d: "d = toRetrieved r" by auto
      from r applyFilters_subset have "r \<in> set rs" by blast
      with rs have "?thr \<le> score r" by (rule searchSimilar_scores)
      then show ?thesis by (simp add: d toRetrieved_def)
    qed
    have requested: "t \<le> relevanceScore d"
      if "d \<in> set (resDocuments result)" "threshold request = Some t" for d t
      using scores [OF that(1)] orDefaultReal_ge [OF that(2)] by linarith
    have limit: "length (resDocuments result) \<le> ?k"
      if contract: "\<forall>ix q k ns. searchKnn env ix q k = Inr ns \<longrightarrow> length ns \<le> k"
    proof -
      have "length rs \<le> ?k" using rs contract by (blast intro: searchSimilar_length)
      moreover have "length (resDocuments result) \<le> length rs"
        by (simp add: docs applyFilters_length)
      ultimately show ?thesis by linarith
    qed
    from scores requested limit show ?thesis by blast
  next
    assume "result = emptyResult env"
    then show ?thesis by (simp add: emptyResult_def)
  qed
qed


lemma demo_query:
  "fst (query demoEnv demoQuery demoService) = Inr demoResult"
  by (simp add: demoService_eq query_def ensureInitialized_def queryTry_def searchSimilar_def
      scoreNeighbour_def applyFilters_def toRetrieved_def orDefaultNat_def orDefaultReal_def
      plainQuery_def demoEnv_def getEmbedding_def demoDocument_def List.map_filter_def Let_def
      storeDocument_def withScore_def InputDocument.extend_def StoredDocument.extend_def demoQuery_def demoResult_def
      demoRetrieved_def)

lemma demoEnv_contract: "\<forall>ix q k ns. searchKnn demoEnv ix q k = Inr ns \<longrightarrow> length ns \<le> k"
  by (auto simp: demoEnv_def)

theorem query_threshold_and_limit_witness:
  "fst (query demoEnv demoQuery demoService) = Inr demoResult \<and>
   resDocuments demoResult = [demoRetrieved] \<and>
   1 / 2 \<le> relevanceScore demoRetrieved \<and>
   length (resDocuments demoResult) \<le> 3"
proof -
  have docs: "resDocuments demoResult = [demoRetrieved]"
    by (simp add: demoResult_def)
  have k: "orDefaultNat (maxResults demoQuery) 10 = 3"
    by (simp add: demoQuery_def orDefaultNat_def)
  have t: "threshold demoQuery = Some (1 / 2)"
    by (simp add: demoQuery_def)
  from query_threshold_and_limit [of demoEnv demoQuery demoService demoResult]
    demo_query demoEnv_contract
  have all: "\<forall>d \<in> set (resDocuments demoResult).
          \<forall>t. threshold demoQuery = Some t \<longrightarrow> t \<le> relevanceScore d"
    and lim: "length (resDocuments demoResult) \<le> orDefaultNat (maxResults demoQuery) 10"
    by blast+
  have mem: "demoRetrieved \<in> set (resDocuments demoResult)"
    by (simp add: docs)
  from all mem t have "1 / 2 \<le> relevanceScore demoRetrieved"
    by blast
  with docs k lim demo_query show ?thesis by simp
qed

subsection \<open>Errors inside \<open>query\<close>\<close>

lemma ensureInitialized_ok:
  "isInitialized st \<or> \<not> isl (loadIndex env) \<or> \<not> isl (createIndex env) \<Longrightarrow>
     fst (ensureInitialized env st) = Inr ()"
  by (auto simp: ensureInitialized_def initialize_def loadOrCreateIndex_def isl_def
      split: sum.splits)

lemma ensureInitialized_fails:
  "\<not> isInitialized st \<Longrightarrow> isl (loadIndex env) \<Longrightarrow> createIndex env = Inl err \<Longrightarrow>
     ensureInitialized env st = (Inl (''RAG Service initialization failed: '' @ err), st)"
  by (auto simp: ensureInitialized_def initialize_def loadOrCreateIndex_def isl_def
      split: sum.splits)

lemma query_after_init:
  "fst (ensureInitialized env st) = Inr () \<Longrightarrow>
     fst (query env request st) =
       (case queryTry env request (snd (ensureInitialized env st)) of
          Inr result \<Rightarrow> Inr result | Inl err \<Rightarrow> Inr (emptyResult env))"
  by (cases "ensureInitialized env st") (auto simp: query_def split: sum.splits)

lemma queryTry_search_fails:
  "vectorIndex st = Some ix \<Longrightarrow> ragDocuments st \<noteq> [] \<Longrightarrow>
   searchKnn env ix (getEmbedding env (queryText request))
     (orDefaultNat (maxResults request) 10) = Inl err \<Longrightarrow>
   queryTry env request st = Inl err"
  by (simp add: queryTry_def searchSimilar_def Let_def)

text \<open>
  C9, as amended. Once the service is initialized, or when its lazy initialization
  succeeds (an index file is read or a new index is made), \<open>query\<close> returns a result
  object for every request, whether or not the embedding backend fails; and when the index
  search throws, that result is the empty one: no documents, \<open>totalResults\<close> 0, confidence
  0, and the elapsed query time. When the service is not initialized and no index can be
  read or made, \<open>query\<close> throws the initialization error.
\<close>

theorem query_returns_once_initialized:
  "(isInitialized st \<or> \<not> isl (loadIndex env) \<or> \<not> isl (createIndex env) \<longrightarrow>
      (\<exists>result. fst (query env request st) = Inr result) \<and>
      (\<forall>ix err. vectorIndex (snd (ensureInitialized env st)) = Some ix \<and>
          ragDocuments (snd (ensureInitialized env st)) \<noteq> [] \<and>
          searchKnn env ix (getEmbedding env (queryText request))
            (orDefaultNat (maxResults request) 10) = Inl err
          \<longrightarrow> fst (query env request st) =
                Inr \<lparr> resDocuments = [], totalResults = 0, queryTime = elapsed env,
                      confidence = 0 \<rparr>)) \<and>
   (\<not> isInitialized st \<and> isl (loadIndex env) \<and> createIndex env = Inl e
      \<longrightarrow> fst (query env request st) = Inl (''RAG Service initialization failed: '' @ e))"
proof (intro conjI impI)
  assume ok: "isInitialized st \<or> \<not> isl (loadIndex env) \<or> \<not> isl (createIndex env)"
  then have init: "fst (ensureInitialized env st) = Inr ()"
    by (rule ensureInitialized_ok)
  show "\<exists>result. fst (query env request st) = Inr result"
    by (simp add: query_after_init [OF init] split: sum.splits)
  show "\<forall>ix err. vectorIndex (snd (ensureInitialized env st)) = Some ix \<and>
          ragDocuments (snd (ensureInitialized env st)) \<noteq> [] \<and>
          searchKnn env ix (getEmbedding env (queryText request))
            (orDefaultNat (maxResults request) 10) = Inl err
          \<longrightarrow> fst (query env request st) =
                Inr \<lparr> resDocuments = [], totalResults = 0, queryTime = elapsed env,
                      confidence = 0 \<rparr>"
    by (auto simp: query_after_init [OF init] emptyResult_def dest!: queryTry_search_fails)
next
  assume "\<not> isInitialized st \<and> isl (loadIndex env) \<and> createIndex env = Inl e"
  then have "ensureInitialized env st = (Inl (''RAG Service initialization failed: '' @ e), st)"
    by (simp add: ensureInitialized_fails)
  then show "fst (query env request st) = Inl (''RAG Service initialization failed: '' @ e)"
    by (simp add: query_def)
qed

theorem query_returns_once_initialized_witness:
  "isInitialized demoService \<and>
   fst (query brokenSearchEnv demoQuery demoService) =
     Inr \<lparr> resDocuments = [], totalResults = 0, queryTime = 5, confidence = 0 \<rparr>"
proof -
  have init: "isInitialized demoService"
    by (simp add: demoService_eq)
  have st: "snd (ensureInitialized brokenSearchEnv demoService) = demoService"
    by (simp add: ensureInitialized_def init)
  have search: "vectorIndex demoService = Some [(getMockEmbedding [104, 105], 0)] \<and>
      ragDocuments demoService \<noteq> [] \<and>
      searchKnn brokenSearchEnv [(getMockEmbedding [104, 105], 0)]
        (getEmbedding brokenSearchEnv (queryText demoQuery))
        (orDefaultNat (maxResults demoQuery) 10) = Inl ''index corrupted''"
    by (simp add: demoService_eq brokenSearchEnv_def demoEnv_def)
  have time: "elapsed brokenSearchEnv = 5"
    by (simp add: brokenSearchEnv_def demoEnv_def)
  from query_returns_once_initialized [of demoService brokenSearchEnv demoQuery]
    init st search time
  have "fst (query brokenSearchEnv demoQuery demoService) =
     Inr \<lparr> resDocuments = [], totalResults = 0, queryTime = 5, confidence = 0 \<rparr>"
    by metis
  with init show ?thesis by simp
qed


subsection \<open>A document added, then queried\<close>


lemma mapSet_not_Nil: "mapSet k v m \<noteq> []"
  by (cases m) auto

lemma initialize_initialized:
  "initialize env st = (Inr u, st1) \<Longrightarrow> isInitialized st1"
  by (auto simp: initialize_def split: sum.splits)

lemma ensureInitialized_initialized:
  "ensureInitialized env st = (Inr u, st1) \<Longrightarrow> isInitialized st1"
  by (auto simp: ensureInitialized_def split: if_splits dest: initialize_initialized)














lemma ensureInitialized_inv: "serviceInv st \<Longrightarrow> serviceInv (snd (ensureInitialized env st))"
  by (auto simp: serviceInv_def ensureInitialized_def initialize_def loadOrCreateIndex_def
      loadDocuments_def split: if_splits sum.splits)

lemma query_inv: "serviceInv st \<Longrightarrow> serviceInv (snd (query env request st))"
  using ensureInitialized_inv [of st env]
  by (auto simp: query_def split: prod.splits sum.splits)

lemma addDocument_inv: "serviceInv st \<Longrightarrow> serviceInv (snd (addDocument env document now st))"
  using ensureInitialized_inv [of st env]
  by (auto simp: addDocument_def addDocumentTry_def serviceInv_def Let_def map_sum_def
      split: prod.splits sum.splits option.splits)





section \<open>Properties of the agents\<close>

subsection \<open>Single flight\<close>

lemma processBegin_busy:
  "processBegin c a = Inr a1 \<Longrightarrow>
     processBegin c' a1 = Inl (''Agent '' @ agentName (agent a) @ '' is already processing a case'')"
  by (auto simp: processBegin_def split: if_splits)

text \<open>A call made while another call is unresolved is rejected, and changes nothing.\<close>

lemma process_rejects_while_busy:
  "processBegin c a = Inr a1 \<Longrightarrow>
     process task c' a1 = (Inl (''Agent '' @ agentName (agent a) @ '' is already processing a case''), a1)"
  by (simp add: process_def processBegin_busy)

text \<open>A call that was admitted leaves the in-flight flag down when it resolves.\<close>

lemma process_releases_flag:
  "\<not> isProcessing a \<Longrightarrow> \<not> isProcessing (snd (process task c a))"
  by (auto simp: process_def processBegin_def processEnd_def processFinally_def
      split: if_splits sum.splits)

lemma process_success_available:
  "\<not> isProcessing a \<Longrightarrow> fst (task c) = Inr r \<Longrightarrow> isAvailable (snd (process task c a))"
  by (simp add: process_def processBegin_def processEnd_def processFinally_def updateMetrics_def
      isAvailable_def Let_def)

lemma process_failure_unavailable:
  "\<not> isProcessing a \<Longrightarrow> fst (task c) = Inl e \<Longrightarrow>
     \<not> isAvailable (snd (process task c a)) \<and> agentStatus (agent (snd (process task c a))) = Error"
  by (simp add: process_def processBegin_def processEnd_def processFinally_def setStatus_def
      isAvailable_def Let_def)

lemma process_keeps_name: "agentName (agent (snd (process task c a))) = agentName (agent a)"
  by (auto simp: process_def processBegin_def processEnd_def processFinally_def updateMetrics_def
      setStatus_def Let_def split: sum.splits)

text \<open>
  C3. An agent rejects a second \<open>process\<close> call while the first is unresolved, and is
  available again after any call has resolved. The code at the input of its own test
  \<^emph>\<open>should reset status after processing failure\<close>: the intake agent, idle, is given a
  case whose validation throws. The call throws, the in-flight flag is released, but the
  status stays \<open>error\<close> (\<open>finally\<close> returns it to \<open>idle\<close> only when it is not \<open>error\<close>), so
  \<open>isAvailable\<close> is false where the specification and the test say true.
\<close>

theorem agent_unavailable_after_failure:
  "process failingTask (sampleCase ContractDispute CxMedium UrgMedium) intakeAgent =
     (Inl ''Plaintiff information validation failed: Validation error: email must be a valid email'',
      \<lparr> agent = \<lparr> agentName = ''Legal Intake Agent'', agentType = IntakeAgentT,
                  agentStatus = Error, currentTask = None, processedCases = 0,
                  averageProcessingTime = 0 \<rparr>,
        isProcessing = False \<rparr>) \<and>
   isAvailable (snd (process failingTask (sampleCase ContractDispute CxMedium UrgMedium) intakeAgent))
     = False"
  by (simp add: process_def processBegin_def processEnd_def processFinally_def setStatus_def
      isAvailable_def failingTask_def intakeAgent_def newAgent_def)

subsection \<open>Failures of the generation service\<close>

text \<open>
  Drafting for a contract dispute while every generation call fails: the task returns the
  case with no document added and the stage advanced, and \<open>process\<close> returns it. Nothing
  is thrown.
\<close>

theorem drafting_failure_counterexample:
  "fst (process (documentTask failingGenerator 9 40)
          (sampleCase ContractDispute CxMedium UrgMedium) documentAgent) =
     Inr ((sampleCase ContractDispute CxMedium UrgMedium)
            \<lparr> workflowStage := ReviewAndRevision, updatedAt := 9 \<rparr>)"
  by (simp add: process_def processBegin_def processEnd_def documentTask_def
      documentExecuteTask_def generateBoth_def failingGenerator_def documentAgent_def
      newAgent_def Let_def sampleCase_def)

lemma generateBoth_failure:
  "isl (gen t Pdf) \<or> isl (gen t Docx) \<Longrightarrow> generateBoth gen t = []"
  by (auto simp: generateBoth_def isl_def split: sum.splits)

text \<open>
  C2, as amended. In the document-drafting task a failure of the generation service for a
  required document type is caught where it happens: that type adds no document, the other
  types are still drafted, and the task returns the case with the documents drafted and
  the stage advanced, so the agent's \<open>process\<close> returns too. In the intake and research
  agents the steps that parse a reply of the generation service (\<open>enhancePlaintiffInfo\<close>,
  \<open>analyzeCaseComplexity\<close>, \<open>identifyKeyPrecedents\<close>, \<open>extractRelevantLaws\<close>) recover
  locally when the reply does not parse: each returns a value, the original data for the
  intake steps.
\<close>

theorem drafting_failure_swallowed:
  "(\<exists>c'. documentExecuteTask gen now c = Inr c' \<and> workflowStage c' = ReviewAndRevision \<and>
      documents c' = documents c
         @ map markValidated (concat (map (generateBoth gen) (determineDocumentsNeeded c)))) \<and>
   (isl (gen t Pdf) \<or> isl (gen t Docx) \<longrightarrow> generateBoth gen t = []) \<and>
   (\<not> isProcessing a \<longrightarrow> (\<exists>c'. fst (process (documentTask gen now ms) c a) = Inr c')) \<and>
   (\<exists>i. enhancePlaintiffInfo r1 info = Inr i) \<and>
   ((\<forall>v. r1 \<noteq> Parsed v) \<longrightarrow> enhancePlaintiffInfo r1 info = Inr info) \<and>
   (\<exists>d. analyzeCaseComplexity r2 details = Inr d) \<and>
   ((\<forall>v. r2 \<noteq> Parsed v) \<longrightarrow> analyzeCaseComplexity r2 details = Inr details) \<and>
   (\<exists>ps. identifyKeyPrecedents r3 docs = Inr ps) \<and>
   (\<exists>ls. extractRelevantLaws r4 docs = Inr ls)"
proof -
  have draft: "\<exists>c'. documentExecuteTask gen now c = Inr c' \<and> workflowStage c' = ReviewAndRevision \<and>
      documents c' = documents c
         @ map markValidated (concat (map (generateBoth gen) (determineDocumentsNeeded c)))"
    by (simp add: documentExecuteTask_def Let_def)
  have skip: "isl (gen t Pdf) \<or> isl (gen t Docx) \<longrightarrow> generateBoth gen t = []"
    by (blast intro: generateBoth_failure)
  have stage: "\<not> isProcessing a \<longrightarrow> (\<exists>c'. fst (process (documentTask gen now ms) c a) = Inr c')"
    by (simp add: process_def processBegin_def processEnd_def documentTask_def
        documentExecuteTask_def Let_def)
  have p1: "\<exists>i. enhancePlaintiffInfo r1 info = Inr i"
    by (simp add: enhancePlaintiffInfo_def split: sum.splits)
  have p2: "(\<forall>v. r1 \<noteq> Parsed v) \<longrightarrow> enhancePlaintiffInfo r1 info = Inr info"
    by (cases r1) (simp_all add: enhancePlaintiffInfo_def replyValue_def)
  have c1: "\<exists>d. analyzeCaseComplexity r2 details = Inr d"
    by (simp add: analyzeCaseComplexity_def split: sum.splits)
  have c2: "(\<forall>v. r2 \<noteq> Parsed v) \<longrightarrow> analyzeCaseComplexity r2 details = Inr details"
    by (cases r2) (simp_all add: analyzeCaseComplexity_def replyValue_def)
  have k: "\<exists>ps. identifyKeyPrecedents r3 docs = Inr ps"
    by (simp add: identifyKeyPrecedents_def Let_def split: sum.splits)
  have l: "\<exists>ls. extractRelevantLaws r4 docs = Inr ls"
    by (simp add: extractRelevantLaws_def Let_def split: sum.splits)
  from draft skip stage p1 p2 c1 c2 k l show ?thesis by blast
qed

lemma noComplaint_documents:
  "documentExecuteTask noComplaintGenerator 9 (sampleCase ContractDispute CxMedium UrgMedium) =
     Inr ((sampleCase ContractDispute CxMedium UrgMedium)
            \<lparr> documents := [(draftOf Motion Pdf)\<lparr> docStatus := DocReview \<rparr>,
                            (draftOf Motion Docx)\<lparr> docStatus := DocReview \<rparr>,
                            (draftOf LegalMemo Pdf)\<lparr> docStatus := DocReview \<rparr>,
                            (draftOf LegalMemo Docx)\<lparr> docStatus := DocReview \<rparr>],
              workflowStage := ReviewAndRevision, updatedAt := 9 \<rparr>)"
  by (simp add: documentExecuteTask_def determineDocumentsNeeded_def fromSet_def sampleCase_def
      generateBoth_def noComplaintGenerator_def markValidated_def isValid_def draftOf_def Let_def)

theorem drafting_failure_swallowed_witness:
  "generateBoth noComplaintGenerator Complaint = [] \<and>
   map docType (documents (projr (documentExecuteTask noComplaintGenerator 9
      (sampleCase ContractDispute CxMedium UrgMedium)))) = [Motion, Motion, LegalMemo, LegalMemo] \<and>
   (\<exists>c'. fst (process (documentTask noComplaintGenerator 9 40)
      (sampleCase ContractDispute CxMedium UrgMedium) documentAgent) = Inr c') \<and>
   enhancePlaintiffInfo (Unparsable ''Unexpected token'')
      (plaintiffInfo (sampleCase ContractDispute CxMedium UrgMedium)) =
     Inr (plaintiffInfo (sampleCase ContractDispute CxMedium UrgMedium)) \<and>
   analyzeCaseComplexity (CallFailed ''Gemini API error: quota exceeded'')
      (caseDetails (sampleCase ContractDispute CxMedium UrgMedium)) =
     Inr (caseDetails (sampleCase ContractDispute CxMedium UrgMedium))"
proof -
  let ?c = "sampleCase ContractDispute CxMedium UrgMedium"
  have fails: "isl (noComplaintGenerator Complaint Pdf) \<or> isl (noComplaintGenerator Complaint Docx)"
    by (simp add: noComplaintGenerator_def)
  have idle: "\<not> isProcessing documentAgent"
    by (simp add: documentAgent_def newAgent_def)
  have r1: "\<forall>v. (Unparsable ''Unexpected token'' :: PlaintiffAnalysis AiReply) \<noteq> Parsed v"
    by simp
  have r2: "\<forall>v. (CallFailed ''Gemini API error: quota exceeded'' :: ComplexityAnalysis AiReply)
      \<noteq> Parsed v"
    by simp
  note inst = drafting_failure_swallowed
    [of noComplaintGenerator 9 ?c Complaint documentAgent 40 "Unparsable ''Unexpected token''"
        "plaintiffInfo ?c" "CallFailed ''Gemini API error: quota exceeded''" "caseDetails ?c"]
  from inst fails have a: "generateBoth noComplaintGenerator Complaint = []" by blast
  from inst idle have b: "\<exists>c'. fst (process (documentTask noComplaintGenerator 9 40) ?c
      documentAgent) = Inr c'" by blast
  from inst r1 have c: "enhancePlaintiffInfo (Unparsable ''Unexpected token'') (plaintiffInfo ?c)
      = Inr (plaintiffInfo ?c)" by blast
  from inst r2 have d: "analyzeCaseComplexity (CallFailed ''Gemini API error: quota exceeded'')
      (caseDetails ?c) = Inr (caseDetails ?c)" by blast
  have e: "map docType (documents (projr (documentExecuteTask noComplaintGenerator 9 ?c)))
      = [Motion, Motion, LegalMemo, LegalMemo]"
    by (simp add: noComplaint_documents draftOf_def)
  from a e b c d show ?thesis by blast
qed

section \<open>Properties of the orchestrator\<close>

subsection \<open>Progress values and event lists\<close>

lemma progressAt_values:
  "progressAt PlaintiffIntake = 0" "progressAt LegalResearch = 17"
  "progressAt ArgumentGeneration = 33" "progressAt DocumentDrafting = 50"
  "progressAt ReviewAndRevision = 67" "progressAt FinalFormatting = 83"
  by (simp_all add: progressAt_def getWorkflowStages_def round_def)

lemma progressTrace_append:
  "progressTrace wid (es @ es') = progressTrace wid es @ progressTrace wid es'"
  by (induction wid es rule: progressTrace.induct) auto

lemma startedIds_append: "startedIds (es @ es') = startedIds es @ startedIds es'"
  by (induction es rule: startedIds.induct) auto

lemma completedEvents_append:
  "completedEvents wid (es @ es') = completedEvents wid es + completedEvents wid es'"
  by (induction wid es rule: completedEvents.induct) auto

subsection \<open>One stage, and the loop over the stages\<close>

lemma modifyWorkflow_present:
  "activeWorkflows orch wid = Some ws \<Longrightarrow>
     modifyWorkflow wid f orch = orch\<lparr> activeWorkflows := (activeWorkflows orch)(wid \<mapsto> f ws) \<rparr>"
  by (simp add: modifyWorkflow_def)

lemma runStage_effect:
  assumes act: "activeWorkflows orch wid = Some ws"
    and run: "runStage tasks wid stage c orch = (r, orch')"
  shows "\<exists>ws' evs. activeWorkflows orch' = (activeWorkflows orch)(wid \<mapsto> ws') \<and>
      wfCaseId ws' = wfCaseId ws \<and> currentStage ws' = stage \<and> progress ws' = progressAt stage \<and>
      completedStages ws' = (if isl r then completedStages ws else completedStages ws @ [stage]) \<and>
      emitted orch' = emitted orch @ evs \<and>
      (\<forall>w. progressTrace w evs = (if w = wid then [progressAt stage] else [])) \<and>
      startedIds evs = [] \<and> (\<forall>w. completedEvents w evs = 0)"
  using run
  by (auto simp: runStage_def updateWorkflowProgress_def addWorkflowLog_def addWorkflowError_def
      modifyWorkflow_def emit_def act Let_def
      split: option.splits prod.splits sum.splits)


lemma stages_length: "length getWorkflowStages = 6"
  by (simp add: getWorkflowStages_def)

lemma stages_distinct: "distinct getWorkflowStages"
  by (simp add: getWorkflowStages_def)

lemma progress_list: "map progressAt getWorkflowStages = [0, 17, 33, 50, 67, 83]"
  by (simp add: getWorkflowStages_def progressAt_values)

lemma progressAt_nth:
  assumes "i < 6"
  shows "progressAt (getWorkflowStages ! i) = [0, 17, 33, 50, 67, 83] ! i"
proof -
  have "progressAt (getWorkflowStages ! i) = map progressAt getWorkflowStages ! i"
    using assms by (simp add: stages_length)
  then show ?thesis by (simp only: progress_list)
qed

lemma progressAt_mono:
  assumes "i \<le> j" "j < 6"
  shows "progressAt (getWorkflowStages ! i) \<le> progressAt (getWorkflowStages ! j)"
proof -
  have "sorted [0, 17, 33, 50, 67, 83 :: int]" by simp
  then have "[0, 17, 33, 50, 67, 83 :: int] ! i \<le> [0, 17, 33, 50, 67, 83] ! j"
    using assms by (intro sorted_nth_mono) simp_all
  with assms show ?thesis by (simp add: progressAt_nth)
qed

lemma progressAt_bounds:
  assumes "i < 6"
  shows "0 \<le> progressAt (getWorkflowStages ! i) \<and> progressAt (getWorkflowStages ! i) \<le> 100"
proof -
  have "\<forall>x \<in> set [0, 17, 33, 50, 67, 83 :: int]. 0 \<le> x \<and> x \<le> 100" by simp
  moreover have "[0, 17, 33, 50, 67, 83 :: int] ! i \<in> set [0, 17, 33, 50, 67, 83]"
    using assms by (intro nth_mem) simp
  ultimately show ?thesis using assms by (simp only: progressAt_nth)
qed

lemma nth_in_take_distinct:
  assumes "distinct xs" "i < length xs"
  shows "xs ! i \<in> set (take m xs) \<longleftrightarrow> i < m"
proof
  assume "xs ! i \<in> set (take m xs)"
  then obtain j where j: "j < length (take m xs)" "take m xs ! j = xs ! i"
    by (auto simp: in_set_conv_nth)
  then have "xs ! j = xs ! i" "j < length xs" "j < m" by simp_all
  with assms have "j = i" by (simp add: nth_eq_iff_index_eq)
  with \<open>j < m\<close> show "i < m" by simp
next
  assume "i < m"
  with assms have "take m xs ! i = xs ! i" "i < length (take m xs)" by simp_all
  then show "xs ! i \<in> set (take m xs)" by (metis nth_mem)
qed

lemma sorted_snoc_twice:
  assumes "sorted (xs @ [a])" "a \<le> (b::int)"
  shows "sorted ((xs @ [b]) @ [b])"
  using assms by (auto simp: sorted_append)

lemma runStages_loop:
  assumes "getWorkflowStages = pre @ rest"
    and "activeWorkflows orch wid = Some ws"
    and "completedStages ws = take m getWorkflowStages"
    and "length pre \<le> m" "m \<le> 6"
    and "sorted (progressTrace wid (emitted orch) @ [progress ws])"
    and "m < 6 \<longrightarrow> progress ws \<le> progressAt (getWorkflowStages ! m)"
    and "progress ws \<le> 100"
    and "runStages tasks wid rest c orch = (r, orch')"
  shows "\<exists>ws' m' evs. activeWorkflows orch' = (activeWorkflows orch)(wid \<mapsto> ws') \<and>
      completedStages ws' = take m' getWorkflowStages \<and> m \<le> m' \<and> m' \<le> 6 \<and>
      wfCaseId ws' = wfCaseId ws \<and>
      sorted (progressTrace wid (emitted orch') @ [progress ws']) \<and>
      progress ws \<le> progress ws' \<and> progress ws' \<le> 100 \<and>
      (if isl r
       then m' < 6 \<and> currentStage ws' = getWorkflowStages ! m' \<and>
            progress ws' = progressAt (getWorkflowStages ! m')
       else m' = 6) \<and>
      emitted orch' = emitted orch @ evs \<and>
      (\<forall>w. w \<noteq> wid \<longrightarrow> progressTrace w evs = []) \<and>
      startedIds evs = [] \<and> (\<forall>w. completedEvents w evs = 0)"
  using assms
proof (induction rest arbitrary: pre c orch ws m)
  case Nil
  then have "length pre = 6" by (simp add: stages_length [symmetric])
  with Nil have m: "m = 6" by simp
  from Nil have "r = Inr c" "orch' = orch" by simp_all
  with Nil m show ?case
    by (intro exI [of _ ws] exI [of _ 6] exI [of _ "[]"]) (simp add: map_upd_triv)
next
  case (Cons stage rest)
  let ?k = "length pre"
  have split: "getWorkflowStages = (pre @ [stage]) @ rest"
    using Cons.prems(1) by simp
  have "length getWorkflowStages = Suc (?k + length rest)"
    by (simp add: Cons.prems(1))
  then have k6: "?k < 6"
    by (simp add: stages_length)
  have stage: "stage = getWorkflowStages ! ?k"
    by (simp add: Cons.prems(1))
  have done_iff: "stageCompleted wid stage orch \<longleftrightarrow> ?k < m"
    using nth_in_take_distinct [OF stages_distinct, of ?k m] k6
    by (simp add: stageCompleted_def Cons.prems(2,3) stage stages_length)
  show ?case
  proof (cases "?k < m")
    case True
    with done_iff Cons.prems(9) have run: "runStages tasks wid rest c orch = (r, orch')"
      by simp
    from True have "length (pre @ [stage]) \<le> m" by simp
    from Cons.IH [OF split Cons.prems(2,3) this Cons.prems(5,6,7,8) run]
    show ?thesis .
  next
    case False
    with Cons.prems(4) have km: "m = ?k" by simp
    with k6 have m6: "m < 6" by simp
    have stage_m: "stage = getWorkflowStages ! m"
      by (simp add: stage km)
    obtain r1 orch1 where r1: "runStage tasks wid stage c orch = (r1, orch1)"
      by (cases "runStage tasks wid stage c orch")
    from runStage_effect [OF Cons.prems(2) r1]
    obtain ws1 evs1 where s1:
      "activeWorkflows orch1 = (activeWorkflows orch)(wid \<mapsto> ws1)"
      "wfCaseId ws1 = wfCaseId ws" "currentStage ws1 = stage" "progress ws1 = progressAt stage"
      "completedStages ws1 = (if isl r1 then completedStages ws else completedStages ws @ [stage])"
      "emitted orch1 = emitted orch @ evs1"
      "\<forall>w. progressTrace w evs1 = (if w = wid then [progressAt stage] else [])"
      "startedIds evs1 = []" "\<forall>w. completedEvents w evs1 = 0"
      by blast
    have le: "progress ws \<le> progressAt stage"
      using Cons.prems(7) m6 by (simp add: stage_m)
    have p100: "progressAt stage \<le> 100"
      using progressAt_bounds [OF m6] by (simp add: stage_m)
    have sorted1: "sorted (progressTrace wid (emitted orch1) @ [progress ws1])"
      using sorted_snoc_twice [OF Cons.prems(6) le]
      by (simp add: s1 progressTrace_append)
    show ?thesis
    proof (cases r1)
      case (Inl err)
      with r1 done_iff False Cons.prems(9) have res: "r = Inl err" "orch' = orch1"
        by simp_all
      have "completedStages ws1 = take m getWorkflowStages"
        using s1(5) Inl Cons.prems(3) by simp
      with s1 res sorted1 le p100 m6 stage_m Cons.prems(5) show ?thesis
        by (intro exI [of _ ws1] exI [of _ m] exI [of _ evs1]) simp
    next
      case (Inr c1)
      with r1 done_iff False Cons.prems(9) have run: "runStages tasks wid rest c1 orch1 = (r, orch')"
        by simp
      have act1: "activeWorkflows orch1 wid = Some ws1"
        by (simp add: s1(1))
      have comp1: "completedStages ws1 = take (Suc m) getWorkflowStages"
        using s1(5) Inr Cons.prems(3) m6
        by (simp add: take_Suc_conv_app_nth stages_length stage_m)
      have len1: "length (pre @ [stage]) \<le> Suc m"
        by (simp add: km)
      have m1: "Suc m \<le> 6" using m6 by simp
      have next1: "Suc m < 6 \<longrightarrow> progress ws1 \<le> progressAt (getWorkflowStages ! Suc m)"
        using progressAt_mono [of m "Suc m"] by (simp add: s1(4) stage_m)
      have p1: "progress ws1 \<le> 100"
        using p100 by (simp add: s1(4))
      from Cons.IH [OF split act1 comp1 len1 m1 sorted1 next1 p1 run]
      obtain ws' m' evs where s2:
        "activeWorkflows orch' = (activeWorkflows orch1)(wid \<mapsto> ws')"
        "completedStages ws' = take m' getWorkflowStages" "Suc m \<le> m'" "m' \<le> 6"
        "wfCaseId ws' = wfCaseId ws1"
        "sorted (progressTrace wid (emitted orch') @ [progress ws'])"
        "progress ws1 \<le> progress ws'" "progress ws' \<le> 100"
        "if isl r
         then m' < 6 \<and> currentStage ws' = getWorkflowStages ! m' \<and>
              progress ws' = progressAt (getWorkflowStages ! m')
         else m' = 6"
        "emitted orch' = emitted orch1 @ evs"
        "\<forall>w. w \<noteq> wid \<longrightarrow> progressTrace w evs = []"
        "startedIds evs = []" "\<forall>w. completedEvents w evs = 0"
        by blast
      have a: "activeWorkflows orch' = (activeWorkflows orch)(wid \<mapsto> ws')"
        by (simp add: s2(1) s1(1))
      have b: "emitted orch' = emitted orch @ (evs1 @ evs)"
        by (simp add: s2(10) s1(6))
      have c: "\<forall>w. w \<noteq> wid \<longrightarrow> progressTrace w (evs1 @ evs) = []"
        using s1(7) s2(11) by (simp add: progressTrace_append)
      have d: "startedIds (evs1 @ evs) = []" "\<forall>w. completedEvents w (evs1 @ evs) = 0"
        using s1(8,9) s2(12,13) by (simp_all add: startedIds_append completedEvents_append)
      have e: "m \<le> m'" "progress ws \<le> progress ws'" "wfCaseId ws' = wfCaseId ws"
        using s2(3,5,7) s1(2,4) le by simp_all
      from a b c d e s2(2,4,6,8,9) show ?thesis
        by (intro exI [of _ ws'] exI [of _ m'] exI [of _ "evs1 @ evs"]) simp
    qed
  qed
qed


lemma sorted_snoc_le:
  assumes "sorted (xs @ [a])" "a \<le> (b::int)"
  shows "sorted (xs @ [b])"
  using assms by (auto simp: sorted_append)

lemma prefix_take_take: "n \<le> m \<Longrightarrow> prefix (take n xs) (take m xs)"
  by (metis min.absorb1 take_is_prefix take_take)

lemma processWorkflow_effect:
  assumes act: "activeWorkflows orch wid = Some ws"
    and inv: "workflowInv ws"
    and srt: "sorted (progressTrace wid (emitted orch) @ [progress ws])"
    and run: "processWorkflow tasks wid c orch = (r, orch')"
  shows "\<exists>ws' evs. activeWorkflows orch' = (activeWorkflows orch)(wid \<mapsto> ws') \<and>
      workflowInv ws' \<and> sorted (progressTrace wid (emitted orch') @ [progress ws']) \<and>
      progress ws \<le> progress ws' \<and> prefix (completedStages ws) (completedStages ws') \<and>
      emitted orch' = emitted orch @ evs \<and>
      (\<forall>w. w \<noteq> wid \<longrightarrow> progressTrace w evs = []) \<and> startedIds evs = [] \<and>
      (isl r \<longrightarrow> completedEvents wid evs = 0 \<and> currentStage ws' \<noteq> Completed)"
proof -
  from inv obtain n where n: "n \<le> 6" "completedStages ws = take n getWorkflowStages"
    "if n < 6
     then currentStage ws = getWorkflowStages ! n \<and> progress ws = progressAt (getWorkflowStages ! n)
     else currentStage ws = Completed \<and> progress ws = 100"
    unfolding workflowInv_def by blast
  have nxt: "n < 6 \<longrightarrow> progress ws \<le> progressAt (getWorkflowStages ! n)"
    using n(3) by simp
  have p100: "progress ws \<le> 100"
    using n(3) progressAt_bounds [of n] by (cases "n < 6") simp_all
  obtain r1 orch1 where r1: "runStages tasks wid getWorkflowStages c orch = (r1, orch1)"
    by (cases "runStages tasks wid getWorkflowStages c orch")
  have "getWorkflowStages = [] @ getWorkflowStages" by simp
  from runStages_loop [OF this act n(2) _ n(1) srt nxt p100 r1]
  obtain ws1 m evs1 where s1:
    "activeWorkflows orch1 = (activeWorkflows orch)(wid \<mapsto> ws1)"
    "completedStages ws1 = take m getWorkflowStages" "n \<le> m" "m \<le> 6"
    "sorted (progressTrace wid (emitted orch1) @ [progress ws1])"
    "progress ws \<le> progress ws1" "progress ws1 \<le> 100"
    "if isl r1
     then m < 6 \<and> currentStage ws1 = getWorkflowStages ! m \<and>
          progress ws1 = progressAt (getWorkflowStages ! m)
     else m = 6"
    "emitted orch1 = emitted orch @ evs1"
    "\<forall>w. w \<noteq> wid \<longrightarrow> progressTrace w evs1 = []"
    "startedIds evs1 = []" "\<forall>w. completedEvents w evs1 = 0"
    by auto
  have act1: "activeWorkflows orch1 wid = Some ws1"
    by (simp add: s1(1))
  have pre: "prefix (completedStages ws) (completedStages ws1)"
    using prefix_take_take [OF s1(3)] by (simp add: n(2) s1(2))
  show ?thesis
  proof (cases r1)
    case (Inl err)
    let ?ws' = "ws1\<lparr> errors := errors ws1 @
        [\<lparr> errStage = currentStage ws1, errAgent = ''workflow-orchestrator'', errError = err,
           errSeverity = SevCritical, errResolved = False \<rparr>] \<rparr>"
    let ?evs = "evs1 @ [WorkflowFailed wid (caseId c) err]"
    from run r1 Inl act act1 have res: "r = Inl err"
      "activeWorkflows orch' = (activeWorkflows orch)(wid \<mapsto> ?ws')"
      "emitted orch' = emitted orch @ ?evs"
      by (auto simp: processWorkflow_def addWorkflowError_def modifyWorkflow_def emit_def s1(1,9))
    have m6: "m < 6" "currentStage ws1 = getWorkflowStages ! m"
      "progress ws1 = progressAt (getWorkflowStages ! m)"
      using s1(8) Inl by simp_all
    have inv': "workflowInv ?ws'"
      unfolding workflowInv_def using m6 s1(2) by (intro exI [of _ m]) simp
    have notc: "currentStage ?ws' \<noteq> Completed"
      using m6 by (auto simp: getWorkflowStages_def nth_Cons' split: if_splits)
    have srt': "sorted (progressTrace wid (emitted orch') @ [progress ?ws'])"
      using s1(5) by (simp add: res(3) s1(9) progressTrace_append)
    from res inv' srt' notc pre s1 show ?thesis
      by (intro exI [of _ ?ws'] exI [of _ ?evs])
        (simp add: progressTrace_append startedIds_append completedEvents_append)
  next
    case (Inr c1)
    let ?ws' = "ws1\<lparr> currentStage := Completed, progress := 100,
        logs := logs ws1 @ [\<lparr> logStage = Completed, logAgent = ''workflow-orchestrator'',
          logAction = ''completed'', logDetails = ''Workflow completed successfully'',
          logDuration = 0 \<rparr>] \<rparr>"
    let ?evs = "evs1 @ [WorkflowCompleted wid (caseId c1)]"
    from run r1 Inr act act1 have res: "r = Inr c1"
      "activeWorkflows orch' = (activeWorkflows orch)(wid \<mapsto> ?ws')"
      "emitted orch' = emitted orch @ ?evs"
      by (auto simp: processWorkflow_def addWorkflowLog_def modifyWorkflow_def emit_def s1(1,9)
          Let_def)
    have m6: "m = 6" using s1(8) Inr by simp
    have inv': "workflowInv ?ws'"
      unfolding workflowInv_def using m6 s1(2) by (intro exI [of _ 6]) simp
    have srt': "sorted (progressTrace wid (emitted orch') @ [progress ?ws'])"
      using sorted_snoc_le [OF s1(5) s1(7)] by (simp add: res(3) s1(9) progressTrace_append)
    have le: "progress ws \<le> progress ?ws'"
      using p100 by simp
    from res inv' srt' le pre s1 show ?thesis
      by (intro exI [of _ ?ws'] exI [of _ ?evs])
        (simp add: progressTrace_append startedIds_append)
  qed
qed


subsection \<open>The operations keep the invariant\<close>

lemma drainQueue_effect:
  "\<exists>evs. drainQueue q orch = orch\<lparr> emitted := emitted orch @ evs \<rparr> \<and>
     (\<forall>w. progressTrace w evs = []) \<and> startedIds evs = [] \<and> (\<forall>w. completedEvents w evs = 0)"
proof (induction q arbitrary: orch)
  case Nil
  show ?case by (intro exI [of _ "[]"]) simp
next
  case (Cons wid q)
  show ?case
  proof (cases "wid = []")
    case True
    with Cons.IH [of orch] show ?thesis by simp
  next
    case False
    let ?e = "WorkflowProcessingRequired wid"
    from Cons.IH [of "emit ?e orch"] obtain evs where
      evs: "drainQueue q (emit ?e orch) = (emit ?e orch)\<lparr> emitted := emitted (emit ?e orch) @ evs \<rparr>"
      "\<forall>w. progressTrace w evs = []" "startedIds evs = []" "\<forall>w. completedEvents w evs = 0"
      by blast
    from False evs show ?thesis
      by (intro exI [of _ "?e # evs"]) (simp add: emit_def)
  qed
qed

lemma startWorkflow_effect:
  "\<exists>ws0 evs.
     activeWorkflows (snd (startWorkflow now wid c orch)) = (activeWorkflows orch)(wid \<mapsto> ws0) \<and>
     completedStages ws0 = [] \<and> currentStage ws0 = PlaintiffIntake \<and> progress ws0 = 0 \<and>
     emitted (snd (startWorkflow now wid c orch)) = emitted orch @ evs \<and>
     (\<forall>w. progressTrace w evs = []) \<and> startedIds evs = [wid]"
proof -
  let ?ws = "\<lparr> wfCaseId = caseId c, currentStage = PlaintiffIntake, completedStages = [],
      progress = 0, estimatedCompletion = calculateEstimatedCompletion now c,
      logs = [\<lparr> logStage = PlaintiffIntake, logAgent = ''workflow-orchestrator'',
                logAction = ''started'', logDetails = ''Workflow initiated'', logDuration = 0 \<rparr>],
      errors = [] \<rparr>"
  let ?o3 = "orch\<lparr> workflowQueue := workflowQueue orch @ [wid],
      activeWorkflows := (activeWorkflows orch)(wid \<mapsto> ?ws),
      emitted := emitted orch @ [WorkflowStarted wid (caseId c)] \<rparr>"
  have s: "snd (startWorkflow now wid c orch) =
      (if \<not> queueProcessing orch then processQueue ?o3 else ?o3)"
    by (simp add: startWorkflow_def addWorkflowLog_def modifyWorkflow_def emit_def Let_def)
  show ?thesis
  proof (cases "queueProcessing orch")
    case True
    with s show ?thesis
      by (intro exI [of _ ?ws] exI [of _ "[WorkflowStarted wid (caseId c)]"]) simp
  next
    case False
    from drainQueue_effect [of "workflowQueue ?o3" "?o3\<lparr> queueProcessing := True \<rparr>"]
    obtain evs where evs:
      "drainQueue (workflowQueue ?o3) (?o3\<lparr> queueProcessing := True \<rparr>) =
         (?o3\<lparr> queueProcessing := True \<rparr>)\<lparr> emitted := emitted (?o3\<lparr> queueProcessing := True \<rparr>) @ evs \<rparr>"
      "\<forall>w. progressTrace w evs = []" "startedIds evs = []"
      by blast
    from False s evs show ?thesis
      by (intro exI [of _ ?ws] exI [of _ "WorkflowStarted wid (caseId c) # evs"])
        (simp add: processQueue_def)
  qed
qed

lemma pauseWorkflow_effect:
  assumes "activeWorkflows orch wid = Some ws"
  shows "\<exists>ws' evs. activeWorkflows (snd (pauseWorkflow wid orch)) = (activeWorkflows orch)(wid \<mapsto> ws') \<and>
     completedStages ws' = completedStages ws \<and> currentStage ws' = currentStage ws \<and>
     progress ws' = progress ws \<and>
     emitted (snd (pauseWorkflow wid orch)) = emitted orch @ evs \<and>
     (\<forall>w. progressTrace w evs = []) \<and> startedIds evs = []"
  using assms
  by (intro exI [of _ "ws\<lparr> logs := logs ws @ [\<lparr> logStage = currentStage ws,
        logAgent = ''workflow-orchestrator'', logAction = ''paused'',
        logDetails = ''Workflow paused by user'', logDuration = 0 \<rparr>] \<rparr>"]
      exI [of _ "[WorkflowPaused wid (wfCaseId ws)]"])
    (simp add: pauseWorkflow_def addWorkflowLog_def modifyWorkflow_def emit_def)

lemma cancelWorkflow_effect:
  assumes "activeWorkflows orch wid = Some ws"
  shows "\<exists>evs. activeWorkflows (snd (cancelWorkflow wid orch)) = (activeWorkflows orch)(wid := None) \<and>
     emitted (snd (cancelWorkflow wid orch)) = emitted orch @ evs \<and>
     (\<forall>w. progressTrace w evs = []) \<and> startedIds evs = []"
  using assms
  by (intro exI [of _ "[WorkflowCancelled wid (wfCaseId ws)]"])
    (simp add: cancelWorkflow_def addWorkflowLog_def modifyWorkflow_def emit_def Let_def)

lemma workflowInv_initial:
  "completedStages ws0 = [] \<Longrightarrow> currentStage ws0 = PlaintiffIntake \<Longrightarrow> progress ws0 = 0 \<Longrightarrow>
     workflowInv ws0"
  unfolding workflowInv_def
  by (intro exI [of _ 0]) (simp add: progressAt_values getWorkflowStages_def)

lemma workflowInv_cong:
  assumes "workflowInv ws" "completedStages ws' = completedStages ws"
    "currentStage ws' = currentStage ws" "progress ws' = progress ws"
  shows "workflowInv ws'"
proof -
  from assms(1) obtain n where "n \<le> 6 \<and> completedStages ws = take n getWorkflowStages \<and>
        (if n < 6
         then currentStage ws = getWorkflowStages ! n \<and>
              progress ws = progressAt (getWorkflowStages ! n)
         else currentStage ws = Completed \<and> progress ws = 100)"
    unfolding workflowInv_def by blast
  then show ?thesis
    unfolding workflowInv_def assms(2,3,4) by (rule exI)
qed

text \<open>What one operation does to a state that satisfies the invariant.\<close>

lemma applyOp_step:
  assumes inv: "orchInv orch" and fresh: "freshIds [op] orch"
  shows "orchInv (applyOp op orch) \<and>
    (\<forall>wid ws ws'. activeWorkflows orch wid = Some ws \<and>
        activeWorkflows (applyOp op orch) wid = Some ws'
       \<longrightarrow> prefix (completedStages ws) (completedStages ws') \<and> progress ws \<le> progress ws')"
proof (cases op)
  case (OpStart now wid0 c)
  from fresh OpStart have notin: "wid0 \<notin> set (startedIds (emitted orch))" by simp
  with inv have none: "activeWorkflows orch wid0 = None" "progressTrace wid0 (emitted orch) = []"
    by (simp_all add: orchInv_def)
  from startWorkflow_effect [of now wid0 c orch] obtain ws0 evs where s:
    "activeWorkflows (applyOp op orch) = (activeWorkflows orch)(wid0 \<mapsto> ws0)"
    "completedStages ws0 = []" "currentStage ws0 = PlaintiffIntake" "progress ws0 = 0"
    "emitted (applyOp op orch) = emitted orch @ evs"
    "\<forall>w. progressTrace w evs = []" "startedIds evs = [wid0]"
    unfolding OpStart by auto
  have inv0: "workflowInv ws0"
    using s(2,3,4) by (rule workflowInv_initial)
  have "orchInv (applyOp op orch)"
    unfolding orchInv_def
  proof (intro allI conjI impI)
    fix wid
    show "sorted (progressTrace wid (emitted (applyOp op orch)))"
      using inv s(5,6) by (simp add: orchInv_def progressTrace_append)
  next
    fix wid assume "wid \<notin> set (startedIds (emitted (applyOp op orch)))"
    then have "wid \<notin> set (startedIds (emitted orch))" "wid \<noteq> wid0"
      by (simp_all add: s(5,7) startedIds_append)
    with inv s show "progressTrace wid (emitted (applyOp op orch)) = []"
      and "activeWorkflows (applyOp op orch) wid = None"
      by (simp_all add: orchInv_def progressTrace_append)
  next
    fix wid ws assume a: "activeWorkflows (applyOp op orch) wid = Some ws"
    show "workflowInv ws"
      using a inv inv0 by (cases "wid = wid0") (simp_all add: s(1) orchInv_def)
    show "sorted (progressTrace wid (emitted (applyOp op orch)) @ [progress ws])"
    proof (cases "wid = wid0")
      case True
      with a s none show ?thesis by (simp add: progressTrace_append)
    next
      case False
      with a s inv show ?thesis by (simp add: progressTrace_append orchInv_def)
    qed
  qed
  moreover have "\<forall>wid ws ws'. activeWorkflows orch wid = Some ws \<and>
        activeWorkflows (applyOp op orch) wid = Some ws'
       \<longrightarrow> prefix (completedStages ws) (completedStages ws') \<and> progress ws \<le> progress ws'"
    using none(1) by (auto simp: s(1))
  ultimately show ?thesis by blast
next
  case (OpProcess tasks wid0 c)
  show ?thesis
  proof (cases "activeWorkflows orch wid0")
    case None
    then have "applyOp op orch = orch"
      by (simp add: OpProcess processWorkflow_def)
    with inv show ?thesis by auto
  next
    case (Some ws0)
    with inv have i0: "workflowInv ws0" "sorted (progressTrace wid0 (emitted orch) @ [progress ws0])"
      by (simp_all add: orchInv_def)
    obtain r orch' where run: "processWorkflow tasks wid0 c orch = (r, orch')"
      by (cases "processWorkflow tasks wid0 c orch")
    then have o': "applyOp op orch = orch'"
      by (simp add: OpProcess)
    from processWorkflow_effect [OF Some i0 run] obtain ws' evs where s:
      "activeWorkflows orch' = (activeWorkflows orch)(wid0 \<mapsto> ws')"
      "workflowInv ws'" "sorted (progressTrace wid0 (emitted orch') @ [progress ws'])"
      "progress ws0 \<le> progress ws'" "prefix (completedStages ws0) (completedStages ws')"
      "emitted orch' = emitted orch @ evs"
      "\<forall>w. w \<noteq> wid0 \<longrightarrow> progressTrace w evs = []" "startedIds evs = []"
      by blast
    have "orchInv orch'"
      unfolding orchInv_def
    proof (intro allI conjI impI)
      fix wid
      show "sorted (progressTrace wid (emitted orch'))"
      proof (cases "wid = wid0")
        case True
        with s(3) show ?thesis by (simp add: sorted_append)
      next
        case False
        with inv s(6,7) show ?thesis by (simp add: orchInv_def progressTrace_append)
      qed
    next
      fix wid assume "wid \<notin> set (startedIds (emitted orch'))"
      then have n: "wid \<notin> set (startedIds (emitted orch))"
        by (simp add: s(6,8) startedIds_append)
      with inv have "activeWorkflows orch wid = None" "progressTrace wid (emitted orch) = []"
        by (simp_all add: orchInv_def)
      moreover from this Some have "wid \<noteq> wid0" by auto
      ultimately show "progressTrace wid (emitted orch') = []"
        and "activeWorkflows orch' wid = None"
        using s by (simp_all add: progressTrace_append)
    next
      fix wid ws assume a: "activeWorkflows orch' wid = Some ws"
      show "workflowInv ws"
        using a inv s(1,2) by (cases "wid = wid0") (simp_all add: orchInv_def)
      show "sorted (progressTrace wid (emitted orch') @ [progress ws])"
      proof (cases "wid = wid0")
        case True
        with a s(1,3) show ?thesis by simp
      next
        case False
        with a s inv show ?thesis by (simp add: progressTrace_append orchInv_def)
      qed
    qed
    moreover have "\<forall>wid ws ws'. activeWorkflows orch wid = Some ws \<and>
        activeWorkflows orch' wid = Some ws'
       \<longrightarrow> prefix (completedStages ws) (completedStages ws') \<and> progress ws \<le> progress ws'"
      using Some s(1,4,5) by (auto simp: fun_upd_def split: if_splits)
    ultimately show ?thesis by (simp add: o')
  qed
next
  case (OpPause wid0)
  show ?thesis
  proof (cases "activeWorkflows orch wid0")
    case None
    then have "applyOp op orch = orch"
      by (simp add: OpPause pauseWorkflow_def)
    with inv show ?thesis by auto
  next
    case (Some ws0)
    from pauseWorkflow_effect [OF Some] obtain ws' evs where s:
      "activeWorkflows (applyOp op orch) = (activeWorkflows orch)(wid0 \<mapsto> ws')"
      "completedStages ws' = completedStages ws0" "currentStage ws' = currentStage ws0"
      "progress ws' = progress ws0"
      "emitted (applyOp op orch) = emitted orch @ evs"
      "\<forall>w. progressTrace w evs = []" "startedIds evs = []"
      unfolding OpPause by auto
    from inv Some have i0: "workflowInv ws0" "sorted (progressTrace wid0 (emitted orch) @ [progress ws0])"
      by (simp_all add: orchInv_def)
    have i': "workflowInv ws'"
      using i0(1) s(2,3,4) by (rule workflowInv_cong)
    have "orchInv (applyOp op orch)"
      unfolding orchInv_def
    proof (intro allI conjI impI)
      fix wid
      show "sorted (progressTrace wid (emitted (applyOp op orch)))"
        using inv s(5,6) by (simp add: orchInv_def progressTrace_append)
    next
      fix wid assume "wid \<notin> set (startedIds (emitted (applyOp op orch)))"
      then have "wid \<notin> set (startedIds (emitted orch))"
        by (simp add: s(5,7) startedIds_append)
      with inv have "activeWorkflows orch wid = None" "progressTrace wid (emitted orch) = []"
        by (simp_all add: orchInv_def)
      moreover from this Some have "wid \<noteq> wid0" by auto
      ultimately show "progressTrace wid (emitted (applyOp op orch)) = []"
        and "activeWorkflows (applyOp op orch) wid = None"
        using s by (simp_all add: progressTrace_append)
    next
      fix wid ws assume a: "activeWorkflows (applyOp op orch) wid = Some ws"
      show "workflowInv ws"
        using a inv i' by (cases "wid = wid0") (simp_all add: s(1) orchInv_def)
      show "sorted (progressTrace wid (emitted (applyOp op orch)) @ [progress ws])"
      proof (cases "wid = wid0")
        case True
        with a s i0 show ?thesis by (simp add: progressTrace_append)
      next
        case False
        with a s inv show ?thesis by (simp add: progressTrace_append orchInv_def)
      qed
    qed
    moreover have "\<forall>wid ws ws'. activeWorkflows orch wid = Some ws \<and>
        activeWorkflows (applyOp op orch) wid = Some ws'
       \<longrightarrow> prefix (completedStages ws) (completedStages ws') \<and> progress ws \<le> progress ws'"
      using Some s(1,2,4) by (auto simp: fun_upd_def split: if_splits)
    ultimately show ?thesis by blast
  qed
next
  case (OpCancel wid0)
  show ?thesis
  proof (cases "activeWorkflows orch wid0")
    case None
    then have "applyOp op orch = orch"
      by (simp add: OpCancel cancelWorkflow_def)
    with inv show ?thesis by auto
  next
    case (Some ws0)
    from cancelWorkflow_effect [OF Some] obtain evs where s:
      "activeWorkflows (applyOp op orch) = (activeWorkflows orch)(wid0 := None)"
      "emitted (applyOp op orch) = emitted orch @ evs"
      "\<forall>w. progressTrace w evs = []" "startedIds evs = []"
      unfolding OpCancel by auto
    have "orchInv (applyOp op orch)"
      unfolding orchInv_def
    proof (intro allI conjI impI)
      fix wid
      show "sorted (progressTrace wid (emitted (applyOp op orch)))"
        using inv s(2,3) by (simp add: orchInv_def progressTrace_append)
    next
      fix wid assume "wid \<notin> set (startedIds (emitted (applyOp op orch)))"
      then have "wid \<notin> set (startedIds (emitted orch))"
        by (simp add: s(2,4) startedIds_append)
      with inv have "activeWorkflows orch wid = None" "progressTrace wid (emitted orch) = []"
        by (simp_all add: orchInv_def)
      with s show "progressTrace wid (emitted (applyOp op orch)) = []"
        and "activeWorkflows (applyOp op orch) wid = None"
        by (auto simp: progressTrace_append)
    next
      fix wid ws assume a: "activeWorkflows (applyOp op orch) wid = Some ws"
      then have b: "wid \<noteq> wid0" "activeWorkflows orch wid = Some ws"
        by (auto simp: s(1) split: if_splits)
      with inv show "workflowInv ws" by (simp add: orchInv_def)
      from b inv s show "sorted (progressTrace wid (emitted (applyOp op orch)) @ [progress ws])"
        by (simp add: progressTrace_append orchInv_def)
    qed
    moreover have "\<forall>wid ws ws'. activeWorkflows orch wid = Some ws \<and>
        activeWorkflows (applyOp op orch) wid = Some ws'
       \<longrightarrow> prefix (completedStages ws) (completedStages ws') \<and> progress ws \<le> progress ws'"
      by (auto simp: s(1) split: if_splits)
    ultimately show ?thesis by blast
  qed
qed


subsection \<open>The concrete run\<close>

lemmas run_defs =
  processWorkflow_def getWorkflowStages_def stageCompleted_def runStage_def
  updateWorkflowProgress_def modifyWorkflow_def emit_def getAgentForStage_def process_def
  processBegin_def processEnd_def processFinally_def updateMetrics_def setStatus_def
  addWorkflowLog_def addWorkflowError_def researchFails_def passingTasks_def
  intakeAgent_def researchAgent_def documentAgent_def newAgent_def demoCase_def sampleCase_def
  progressAt_values Let_def

lemma startedOrchestrator_eq:
  "startedOrchestrator =
     \<lparr> agents = [''intake'' \<mapsto> intakeAgent, ''research'' \<mapsto> researchAgent,
                 ''document'' \<mapsto> documentAgent],
       activeWorkflows = [''wf-1'' \<mapsto>
         \<lparr> wfCaseId = ''case-1'', currentStage = PlaintiffIntake, completedStages = [],
           progress = 0, estimatedCompletion = 1801000, logs = [startedLog], errors = [] \<rparr>],
       workflowQueue = [], queueProcessing = False,
       emitted = [WorkflowStarted ''wf-1'' ''case-1'', WorkflowProcessingRequired ''wf-1''] \<rparr>"
  by (simp add: startedOrchestrator_def startWorkflow_def newOrchestrator_def addWorkflowLog_def
      modifyWorkflow_def emit_def processQueue_def calculateEstimatedCompletion_def demoCase_def
      sampleCase_def startedLog_def Let_def)

lemma failedOrchestrator_workflow:
  "activeWorkflows failedOrchestrator ''wf-1'' = Some failedWorkflow"
  by (simp add: failedOrchestrator_def startedOrchestrator_eq run_defs failedWorkflow_def
      startedLog_def stageLog_def researchError_def)

lemma failedOrchestrator_emitted:
  "emitted failedOrchestrator =
     [WorkflowStarted ''wf-1'' ''case-1'', WorkflowProcessingRequired ''wf-1'',
      WorkflowProgress ''wf-1'' ''case-1'' 0 PlaintiffIntake,
      WorkflowStageStarted ''wf-1'' ''case-1'' PlaintiffIntake,
      WorkflowStageCompleted ''wf-1'' ''case-1'' PlaintiffIntake 40,
      WorkflowProgress ''wf-1'' ''case-1'' 17 LegalResearch,
      WorkflowStageStarted ''wf-1'' ''case-1'' LegalResearch,
      WorkflowStageFailed ''wf-1'' ''case-1'' LegalResearch ''Gemini API error: retrieval unavailable'',
      WorkflowFailed ''wf-1'' ''case-1'' ''Gemini API error: retrieval unavailable'']"
  by (simp add: failedOrchestrator_def startedOrchestrator_eq run_defs)

lemma failed_result:
  "fst (processWorkflow researchFails ''wf-1'' demoCase startedOrchestrator) =
     Inl ''Gemini API error: retrieval unavailable''"
  by (simp add: startedOrchestrator_eq run_defs)

lemma resumedOrchestrator_workflow:
  "map_option (\<lambda>ws. (currentStage ws, completedStages ws, progress ws))
     (activeWorkflows resumedOrchestrator ''wf-1'') =
   Some (Completed,
         [PlaintiffIntake, LegalResearch, ArgumentGeneration, DocumentDrafting,
          ReviewAndRevision, FinalFormatting], 100)"
  by (simp add: resumedOrchestrator_def failedOrchestrator_def startedOrchestrator_eq run_defs)

lemma resumedOrchestrator_trace:
  "progressTrace ''wf-1'' (emitted resumedOrchestrator) = [0, 17, 17, 33, 50, 67, 83]"
  by (simp add: resumedOrchestrator_def failedOrchestrator_def startedOrchestrator_eq run_defs)

lemma demo_fresh:
  "freshIds [OpStart 1000 ''wf-1'' demoCase, OpProcess researchFails ''wf-1'' demoCase]
     newOrchestrator"
  by (simp add: newOrchestrator_def)

lemma demo_runOps:
  "runOps [OpStart 1000 ''wf-1'' demoCase, OpProcess researchFails ''wf-1'' demoCase]
     newOrchestrator = failedOrchestrator"
  by (simp add: failedOrchestrator_def startedOrchestrator_def)

lemma demo_resume:
  "applyOp (OpProcess passingTasks ''wf-1'' demoCase) failedOrchestrator = resumedOrchestrator"
  by (simp add: resumedOrchestrator_def)

subsection \<open>Reachable states\<close>

lemma orchInv_new: "orchInv newOrchestrator"
  by (simp add: orchInv_def newOrchestrator_def)

lemma freshIds_Cons:
  "freshIds (op # ops) orch \<Longrightarrow> freshIds [op] orch \<and> freshIds ops (applyOp op orch)"
  by (cases op) simp_all

lemma runOps_inv:
  "orchInv orch \<Longrightarrow> freshIds ops orch \<Longrightarrow> orchInv (runOps ops orch)"
proof (induction ops arbitrary: orch)
  case Nil
  then show ?case by simp
next
  case (Cons op ops)
  from freshIds_Cons [OF Cons.prems(2)]
  have f: "freshIds [op] orch" "freshIds ops (applyOp op orch)" by simp_all
  from applyOp_step [OF Cons.prems(1) f(1)] have "orchInv (applyOp op orch)" by simp
  from Cons.IH [OF this f(2)] show ?case by simp
qed

lemma workflowInv_distinct: "workflowInv ws \<Longrightarrow> distinct (completedStages ws)"
  by (auto simp: workflowInv_def stages_distinct)

lemma indexOf_stage:
  assumes "i < 6"
  shows "indexOf getWorkflowStages (getWorkflowStages ! i) = int i"
proof -
  from assms have "i = 0 \<or> i = 1 \<or> i = 2 \<or> i = 3 \<or> i = 4 \<or> i = 5" by arith
  then show ?thesis by (auto simp: getWorkflowStages_def)
qed

lemma progressAt_formula:
  assumes "i < 6"
  shows "progressAt (getWorkflowStages ! i) = round (100 * real i / 6)"
  by (simp add: progressAt_def indexOf_stage [OF assms] stages_length)

lemma workflowInv_progress:
  assumes "workflowInv ws"
  shows "(currentStage ws = Completed \<longrightarrow> progress ws = 100) \<and>
    (\<forall>i<6. currentStage ws = getWorkflowStages ! i \<longrightarrow> progress ws = round (100 * real i / 6))"
proof -
  from assms obtain n where n: "n \<le> 6"
    "if n < 6
     then currentStage ws = getWorkflowStages ! n \<and> progress ws = progressAt (getWorkflowStages ! n)
     else currentStage ws = Completed \<and> progress ws = 100"
    unfolding workflowInv_def by blast
  have notc: "getWorkflowStages ! i \<noteq> Completed" if "i < 6" for i
  proof -
    from that have "getWorkflowStages ! i \<in> set getWorkflowStages"
      by (simp add: stages_length)
    then show ?thesis by (auto simp: getWorkflowStages_def)
  qed
  show ?thesis
  proof (cases "n < 6")
    case True
    with n(2) have c: "currentStage ws = getWorkflowStages ! n"
      and p: "progress ws = progressAt (getWorkflowStages ! n)" by simp_all
    have "i = n" if "i < 6" "currentStage ws = getWorkflowStages ! i" for i
      using that c True stages_distinct by (simp add: nth_eq_iff_index_eq stages_length)
    with c p notc [OF True] progressAt_formula show ?thesis by auto
  next
    case False
    with n(2) have c: "currentStage ws = Completed" "progress ws = 100" by simp_all
    from c(1) notc have "\<forall>i<6. currentStage ws \<noteq> getWorkflowStages ! i" by metis
    with c(2) show ?thesis by blast
  qed
qed

text \<open>
  C8. In every state reached from the new orchestrator by a sequence of the operations
  (\<open>startWorkflow\<close> with ids the uuid generator never repeats, \<open>processWorkflow\<close> with any
  task outcomes, \<open>pauseWorkflow\<close>, \<open>cancelWorkflow\<close>), the completed stages of every active
  workflow hold no duplicate; and for every further operation, a workflow active before
  and after it has its former completed stages as a prefix of the new ones: stages are
  only appended, none is removed and the order stays.
\<close>

theorem completedStages_distinct_append_only:
  "freshIds ops newOrchestrator \<longrightarrow>
     (\<forall>wid ws. activeWorkflows (runOps ops newOrchestrator) wid = Some ws \<longrightarrow>
        distinct (completedStages ws) \<and>
        (\<forall>op ws'. freshIds [op] (runOps ops newOrchestrator) \<and>
            activeWorkflows (applyOp op (runOps ops newOrchestrator)) wid = Some ws'
           \<longrightarrow> prefix (completedStages ws) (completedStages ws') \<and>
               distinct (completedStages ws')))"
proof (intro impI allI conjI)
  fix wid ws
  assume fresh: "freshIds ops newOrchestrator"
    and act: "activeWorkflows (runOps ops newOrchestrator) wid = Some ws"
  let ?orch = "runOps ops newOrchestrator"
  have inv: "orchInv ?orch"
    using orchInv_new fresh by (rule runOps_inv)
  with act show "distinct (completedStages ws)"
    by (simp add: orchInv_def workflowInv_distinct)
  fix op ws'
  assume "freshIds [op] ?orch \<and> activeWorkflows (applyOp op ?orch) wid = Some ws'"
  then have f: "freshIds [op] ?orch" and act': "activeWorkflows (applyOp op ?orch) wid = Some ws'"
    by simp_all
  from applyOp_step [OF inv f] act act'
  show "prefix (completedStages ws) (completedStages ws')"
    by blast
  from applyOp_step [OF inv f] have "orchInv (applyOp op ?orch)" by simp
  with act' show "distinct (completedStages ws')"
    by (simp add: orchInv_def workflowInv_distinct)
qed

theorem completedStages_distinct_append_only_witness:
  "freshIds [OpStart 1000 ''wf-1'' demoCase, OpProcess researchFails ''wf-1'' demoCase]
     newOrchestrator \<and>
   activeWorkflows failedOrchestrator ''wf-1'' = Some failedWorkflow \<and>
   completedStages failedWorkflow = [PlaintiffIntake] \<and>
   (\<exists>ws'. activeWorkflows resumedOrchestrator ''wf-1'' = Some ws' \<and>
      completedStages ws' = [PlaintiffIntake, LegalResearch, ArgumentGeneration,
        DocumentDrafting, ReviewAndRevision, FinalFormatting] \<and>
      prefix (completedStages failedWorkflow) (completedStages ws') \<and>
      distinct (completedStages ws'))"
proof -
  let ?ops = "[OpStart 1000 ''wf-1'' demoCase, OpProcess researchFails ''wf-1'' demoCase]"
  let ?op = "OpProcess passingTasks ''wf-1'' demoCase"
  from resumedOrchestrator_workflow obtain ws' where
    ws': "activeWorkflows resumedOrchestrator ''wf-1'' = Some ws'"
    "completedStages ws' = [PlaintiffIntake, LegalResearch, ArgumentGeneration,
        DocumentDrafting, ReviewAndRevision, FinalFormatting]"
    by auto
  have f: "freshIds [?op] (runOps ?ops newOrchestrator)" by simp
  have a: "activeWorkflows (runOps ?ops newOrchestrator) ''wf-1'' = Some failedWorkflow"
    by (simp only: demo_runOps failedOrchestrator_workflow)
  have a': "activeWorkflows (applyOp ?op (runOps ?ops newOrchestrator)) ''wf-1'' = Some ws'"
    by (simp only: demo_runOps demo_resume ws'(1))
  from completedStages_distinct_append_only [of ?ops] demo_fresh a f a'
  have "prefix (completedStages failedWorkflow) (completedStages ws')"
    "distinct (completedStages ws')"
    by blast+
  with demo_fresh failedOrchestrator_workflow ws' show ?thesis
    by (intro conjI exI [of _ ws']) (simp_all add: failedWorkflow_def)
qed

text \<open>
  C4. In every state reached from the new orchestrator by a sequence of the operations,
  the progress values announced for a workflow, in order and followed by its current
  progress, never go down; no operation lowers the progress of a workflow; when the
  current stage is the stage of index \<open>i\<close> of the six-stage pipeline the progress is
  \<open>round (100 \<times> i / 6)\<close>; and at \<open>completed\<close> it is 100.
\<close>

theorem progress_monotonic_by_stage:
  "freshIds ops newOrchestrator \<longrightarrow>
     (\<forall>wid. sorted (progressTrace wid (emitted (runOps ops newOrchestrator)))) \<and>
     (\<forall>wid ws. activeWorkflows (runOps ops newOrchestrator) wid = Some ws \<longrightarrow>
        sorted (progressTrace wid (emitted (runOps ops newOrchestrator)) @ [progress ws]) \<and>
        (currentStage ws = Completed \<longrightarrow> progress ws = 100) \<and>
        (\<forall>i<6. currentStage ws = getWorkflowStages ! i \<longrightarrow> progress ws = round (100 * real i / 6)) \<and>
        (\<forall>op ws'. freshIds [op] (runOps ops newOrchestrator) \<and>
            activeWorkflows (applyOp op (runOps ops newOrchestrator)) wid = Some ws'
           \<longrightarrow> progress ws \<le> progress ws'))"
proof
  assume fresh: "freshIds ops newOrchestrator"
  let ?orch = "runOps ops newOrchestrator"
  have inv: "orchInv ?orch"
    using orchInv_new fresh by (rule runOps_inv)
  have a: "\<forall>wid. sorted (progressTrace wid (emitted ?orch))"
    using inv by (simp add: orchInv_def)
  have b: "sorted (progressTrace wid (emitted ?orch) @ [progress ws]) \<and>
        (currentStage ws = Completed \<longrightarrow> progress ws = 100) \<and>
        (\<forall>i<6. currentStage ws = getWorkflowStages ! i \<longrightarrow> progress ws = round (100 * real i / 6)) \<and>
        (\<forall>op ws'. freshIds [op] ?orch \<and> activeWorkflows (applyOp op ?orch) wid = Some ws'
           \<longrightarrow> progress ws \<le> progress ws')"
    if act: "activeWorkflows ?orch wid = Some ws" for wid ws
  proof -
    from inv act have w: "workflowInv ws"
      and s: "sorted (progressTrace wid (emitted ?orch) @ [progress ws])"
      by (simp_all add: orchInv_def)
    have step: "progress ws \<le> progress ws'"
      if "freshIds [op] ?orch" "activeWorkflows (applyOp op ?orch) wid = Some ws'" for op ws'
      using applyOp_step [OF inv that(1)] act that(2) by blast
    from s workflowInv_progress [OF w] step show ?thesis by blast
  qed
  from a b show "(\<forall>wid. sorted (progressTrace wid (emitted ?orch))) \<and>
     (\<forall>wid ws. activeWorkflows ?orch wid = Some ws \<longrightarrow>
        sorted (progressTrace wid (emitted ?orch) @ [progress ws]) \<and>
        (currentStage ws = Completed \<longrightarrow> progress ws = 100) \<and>
        (\<forall>i<6. currentStage ws = getWorkflowStages ! i \<longrightarrow> progress ws = round (100 * real i / 6)) \<and>
        (\<forall>op ws'. freshIds [op] ?orch \<and> activeWorkflows (applyOp op ?orch) wid = Some ws'
           \<longrightarrow> progress ws \<le> progress ws'))"
    by blast
qed


theorem progress_monotonic_by_stage_witness:
  "freshIds [OpStart 1000 ''wf-1'' demoCase, OpProcess researchFails ''wf-1'' demoCase]
     newOrchestrator \<and>
   activeWorkflows failedOrchestrator ''wf-1'' = Some failedWorkflow \<and>
   currentStage failedWorkflow = getWorkflowStages ! 1 \<and>
   progress failedWorkflow = 17 \<and>
   progressTrace ''wf-1'' (emitted failedOrchestrator) = [0, 17] \<and>
   sorted (progressTrace ''wf-1'' (emitted failedOrchestrator) @ [progress failedWorkflow]) \<and>
   (\<exists>ws'. activeWorkflows resumedOrchestrator ''wf-1'' = Some ws' \<and>
      currentStage ws' = Completed \<and> progress ws' = 100 \<and>
      progress failedWorkflow \<le> progress ws')"
proof -
  let ?ops = "[OpStart 1000 ''wf-1'' demoCase, OpProcess researchFails ''wf-1'' demoCase]"
  let ?op = "OpProcess passingTasks ''wf-1'' demoCase"
  from resumedOrchestrator_workflow obtain ws' where
    ws': "activeWorkflows resumedOrchestrator ''wf-1'' = Some ws'"
    "currentStage ws' = Completed" "progress ws' = 100"
    by auto
  have f: "freshIds [?op] (runOps ?ops newOrchestrator)" by simp
  have a: "activeWorkflows (runOps ?ops newOrchestrator) ''wf-1'' = Some failedWorkflow"
    by (simp only: demo_runOps failedOrchestrator_workflow)
  have a': "activeWorkflows (applyOp ?op (runOps ?ops newOrchestrator)) ''wf-1'' = Some ws'"
    by (simp only: demo_runOps demo_resume ws'(1))
  have stage: "currentStage failedWorkflow = getWorkflowStages ! 1"
    by (simp add: failedWorkflow_def getWorkflowStages_def)
  from progress_monotonic_by_stage [of ?ops] demo_fresh a
  have s: "sorted (progressTrace ''wf-1'' (emitted (runOps ?ops newOrchestrator))
        @ [progress failedWorkflow])"
    and formula: "\<forall>i<6. currentStage failedWorkflow = getWorkflowStages ! i
        \<longrightarrow> progress failedWorkflow = round (100 * real i / 6)"
    and step: "\<forall>op ws'. freshIds [op] (runOps ?ops newOrchestrator) \<and>
        activeWorkflows (applyOp op (runOps ?ops newOrchestrator)) ''wf-1'' = Some ws'
        \<longrightarrow> progress failedWorkflow \<le> progress ws'"
    by blast+
  from formula stage have "progress failedWorkflow = round (100 * real (1::nat) / 6)"
    by (metis one_less_numeral_iff semiring_norm(76))
  then have p: "progress failedWorkflow = 17"
    by (simp add: round_def)
  from step f a' have le: "progress failedWorkflow \<le> progress ws'"
    by blast
  have tr: "progressTrace ''wf-1'' (emitted failedOrchestrator) = [0, 17]"
    by (simp add: failedOrchestrator_emitted)
  from s have s': "sorted (progressTrace ''wf-1'' (emitted failedOrchestrator)
        @ [progress failedWorkflow])"
    by (simp only: demo_runOps)
  from demo_fresh failedOrchestrator_workflow stage p tr s' ws' le show ?thesis
    by (intro conjI exI [of _ ws']) simp_all
qed

subsection \<open>A failure of the research stage\<close>

lemma runStage_success:
  assumes act: "activeWorkflows orch wid = Some ws"
    and run: "runStage tasks wid stage c orch = (Inr c1, orch1)"
  shows "\<exists>ws1 evs. activeWorkflows orch1 = (activeWorkflows orch)(wid \<mapsto> ws1) \<and>
      errors ws1 = errors ws \<and> completedStages ws1 = completedStages ws @ [stage] \<and>
      emitted orch1 = emitted orch @ evs \<and> (\<forall>w. completedEvents w evs = 0)"
  using run
  by (auto simp: runStage_def updateWorkflowProgress_def addWorkflowLog_def addWorkflowError_def
      modifyWorkflow_def emit_def act Let_def
      split: option.splits prod.splits sum.splits)

lemma runStage_agent_throws:
  assumes act: "activeWorkflows orch wid = Some ws"
    and key: "agentKeyForStage stage = Some key"
    and ag: "agents orch key = Some a"
    and thr: "fst (process (tasks stage) c a) = Inl msg"
  shows "\<exists>orch' ws' evs. runStage tasks wid stage c orch = (Inl msg, orch') \<and>
      activeWorkflows orch' = (activeWorkflows orch)(wid \<mapsto> ws') \<and>
      errors ws' = errors ws @ [\<lparr> errStage = stage, errAgent = agentName (agent a),
         errError = msg, errSeverity = SevHigh, errResolved = False \<rparr>] \<and>
      completedStages ws' = completedStages ws \<and> currentStage ws' = stage \<and>
      progress ws' = progressAt stage \<and>
      emitted orch' = emitted orch @ evs \<and> (\<forall>w. completedEvents w evs = 0)"
proof -
  obtain a' where p: "process (tasks stage) c a = (Inl msg, a')"
    using thr by (cases "process (tasks stage) c a") simp
  have name: "agentName (agent a') = agentName (agent a)"
    using process_keeps_name [of "tasks stage" c a] by (simp add: p)
  let ?ws' = "ws\<lparr> progress := progressAt stage, currentStage := stage,
      errors := errors ws @ [\<lparr> errStage = stage, errAgent = agentName (agent a),
         errError = msg, errSeverity = SevHigh, errResolved = False \<rparr>] \<rparr>"
  let ?evs = "[WorkflowProgress wid (wfCaseId ws) (progressAt stage) stage,
      WorkflowStageStarted wid (caseId c) stage, WorkflowStageFailed wid (caseId c) stage msg]"
  let ?orch' = "orch\<lparr> agents := (agents orch)(key \<mapsto> a'),
      activeWorkflows := (activeWorkflows orch)(wid \<mapsto> ?ws'),
      emitted := emitted orch @ ?evs \<rparr>"
  have "runStage tasks wid stage c orch = (Inl msg, ?orch')"
    by (simp add: runStage_def updateWorkflowProgress_def addWorkflowError_def
        modifyWorkflow_def emit_def act getAgentForStage_def key ag p name Let_def)
  then show ?thesis
    by (intro exI [of _ ?orch'] exI [of _ ?ws'] exI [of _ ?evs]) simp
qed

text \<open>
  C1, as amended. When the research stage's agent call throws during \<open>processWorkflow\<close>
  (the intake stage being completed already, or succeeding in this call), the call
  throws the same error and appends exactly two entries to the workflow's error log, both
  for the research stage and with the thrown message: one of severity high in the name of
  the research agent, written where the stage fails, and one of severity critical in the
  name of the orchestrator, written where the workflow fails. The call leaves the
  workflow at the research stage with progress 17, the research stage not completed, and
  emits no workflow-completed event.
\<close>

theorem research_failure_logged_twice:
  "activeWorkflows orch wid = Some ws \<and>
   LegalResearch \<notin> set (completedStages ws) \<and>
   (if PlaintiffIntake \<in> set (completedStages ws) then c1 = caseData \<and> orch1 = orch
    else runStage tasks wid PlaintiffIntake caseData orch = (Inr c1, orch1)) \<and>
   agents orch1 ''research'' = Some ra \<and>
   fst (process (tasks LegalResearch) c1 ra) = Inl msg
   \<longrightarrow> (\<exists>orch' ws'. processWorkflow tasks wid caseData orch = (Inl msg, orch') \<and>
        activeWorkflows orch' wid = Some ws' \<and>
        errors ws' = errors ws @
          [\<lparr> errStage = LegalResearch, errAgent = agentName (agent ra), errError = msg,
             errSeverity = SevHigh, errResolved = False \<rparr>,
           \<lparr> errStage = LegalResearch, errAgent = ''workflow-orchestrator'', errError = msg,
             errSeverity = SevCritical, errResolved = False \<rparr>] \<and>
        currentStage ws' = LegalResearch \<and> progress ws' = 17 \<and>
        LegalResearch \<notin> set (completedStages ws') \<and>
        completedEvents wid (emitted orch') = completedEvents wid (emitted orch))"
proof
  assume h: "activeWorkflows orch wid = Some ws \<and>
   LegalResearch \<notin> set (completedStages ws) \<and>
   (if PlaintiffIntake \<in> set (completedStages ws) then c1 = caseData \<and> orch1 = orch
    else runStage tasks wid PlaintiffIntake caseData orch = (Inr c1, orch1)) \<and>
   agents orch1 ''research'' = Some ra \<and>
   fst (process (tasks LegalResearch) c1 ra) = Inl msg"
  then have act: "activeWorkflows orch wid = Some ws"
    and nores: "LegalResearch \<notin> set (completedStages ws)"
    and ag: "agents orch1 ''research'' = Some ra"
    and thr: "fst (process (tasks LegalResearch) c1 ra) = Inl msg"
    by simp_all
  let ?rest = "[ArgumentGeneration, DocumentDrafting, ReviewAndRevision, FinalFormatting]"
  have first: "\<exists>ws1 evs. activeWorkflows orch1 = (activeWorkflows orch)(wid \<mapsto> ws1) \<and>
      errors ws1 = errors ws \<and> LegalResearch \<notin> set (completedStages ws1) \<and>
      emitted orch1 = emitted orch @ evs \<and> (\<forall>w. completedEvents w evs = 0) \<and>
      runStages tasks wid getWorkflowStages caseData orch =
        runStages tasks wid (LegalResearch # ?rest) c1 orch1"
  proof (cases "PlaintiffIntake \<in> set (completedStages ws)")
    case True
    with h have "c1 = caseData" "orch1 = orch" by simp_all
    with True act nores show ?thesis
      by (intro exI [of _ ws] exI [of _ "[]"])
        (simp add: getWorkflowStages_def stageCompleted_def map_upd_triv)
  next
    case False
    with h have run: "runStage tasks wid PlaintiffIntake caseData orch = (Inr c1, orch1)"
      by simp
    from runStage_success [OF act run] obtain ws1 evs where s:
      "activeWorkflows orch1 = (activeWorkflows orch)(wid \<mapsto> ws1)"
      "errors ws1 = errors ws" "completedStages ws1 = completedStages ws @ [PlaintiffIntake]"
      "emitted orch1 = emitted orch @ evs" "\<forall>w. completedEvents w evs = 0"
      by blast
    with False act nores run show ?thesis
      by (intro exI [of _ ws1] exI [of _ evs])
        (simp add: getWorkflowStages_def stageCompleted_def)
  qed
  then obtain ws1 evs1 where s1:
    "activeWorkflows orch1 = (activeWorkflows orch)(wid \<mapsto> ws1)"
    "errors ws1 = errors ws" "LegalResearch \<notin> set (completedStages ws1)"
    "emitted orch1 = emitted orch @ evs1" "\<forall>w. completedEvents w evs1 = 0"
    "runStages tasks wid getWorkflowStages caseData orch =
       runStages tasks wid (LegalResearch # ?rest) c1 orch1"
    by blast
  have act1: "activeWorkflows orch1 wid = Some ws1"
    by (simp add: s1(1))
  have key: "agentKeyForStage LegalResearch = Some ''research''" by simp
  from runStage_agent_throws [where tasks = tasks and stage = LegalResearch, OF act1 key ag thr] obtain orch2 ws2 evs2 where s2:
    "runStage tasks wid LegalResearch c1 orch1 = (Inl msg, orch2)"
    "activeWorkflows orch2 = (activeWorkflows orch1)(wid \<mapsto> ws2)"
    "errors ws2 = errors ws1 @ [\<lparr> errStage = LegalResearch, errAgent = agentName (agent ra),
         errError = msg, errSeverity = SevHigh, errResolved = False \<rparr>]"
    "completedStages ws2 = completedStages ws1" "currentStage ws2 = LegalResearch"
    "progress ws2 = progressAt LegalResearch"
    "emitted orch2 = emitted orch1 @ evs2" "\<forall>w. completedEvents w evs2 = 0"
    by blast
  have loop: "runStages tasks wid getWorkflowStages caseData orch = (Inl msg, orch2)"
    using s1(3) by (simp add: s1(6) stageCompleted_def act1 s2(1))
  have act2: "activeWorkflows orch2 wid = Some ws2"
    by (simp add: s2(2))
  let ?ws' = "ws2\<lparr> errors := errors ws2 @
      [\<lparr> errStage = LegalResearch, errAgent = ''workflow-orchestrator'', errError = msg,
         errSeverity = SevCritical, errResolved = False \<rparr>] \<rparr>"
  let ?orch' = "orch2\<lparr> activeWorkflows := (activeWorkflows orch2)(wid \<mapsto> ?ws'),
      emitted := emitted orch2 @ [WorkflowFailed wid (caseId caseData) msg] \<rparr>"
  have res: "processWorkflow tasks wid caseData orch = (Inl msg, ?orch')"
    by (simp add: processWorkflow_def act loop act2 s2(5) addWorkflowError_def
        modifyWorkflow_def emit_def)
  have "activeWorkflows ?orch' wid = Some ?ws'" by simp
  moreover have "errors ?ws' = errors ws @
          [\<lparr> errStage = LegalResearch, errAgent = agentName (agent ra), errError = msg,
             errSeverity = SevHigh, errResolved = False \<rparr>,
           \<lparr> errStage = LegalResearch, errAgent = ''workflow-orchestrator'', errError = msg,
             errSeverity = SevCritical, errResolved = False \<rparr>]"
    by (simp add: s2(3) s1(2))
  moreover have "currentStage ?ws' = LegalResearch" "progress ?ws' = 17"
    "LegalResearch \<notin> set (completedStages ?ws')"
    using s1(3) by (simp_all add: s2(4,5,6) progressAt_values)
  moreover have "completedEvents wid (emitted ?orch') = completedEvents wid (emitted orch)"
    using s1(5) s2(8) by (simp add: s2(7) s1(4) completedEvents_append)
  ultimately show "\<exists>orch' ws'. processWorkflow tasks wid caseData orch = (Inl msg, orch') \<and>
        activeWorkflows orch' wid = Some ws' \<and>
        errors ws' = errors ws @
          [\<lparr> errStage = LegalResearch, errAgent = agentName (agent ra), errError = msg,
             errSeverity = SevHigh, errResolved = False \<rparr>,
           \<lparr> errStage = LegalResearch, errAgent = ''workflow-orchestrator'', errError = msg,
             errSeverity = SevCritical, errResolved = False \<rparr>] \<and>
        currentStage ws' = LegalResearch \<and> progress ws' = 17 \<and>
        LegalResearch \<notin> set (completedStages ws') \<and>
        completedEvents wid (emitted orch') = completedEvents wid (emitted orch)"
    using res by blast
qed


text \<open>
  A new workflow whose intake succeeds and whose research task throws: the error log
  holds two entries for the research stage, not one.
\<close>

theorem research_failure_counterexample:
  "fst (processWorkflow researchFails ''wf-1'' demoCase startedOrchestrator) =
     Inl ''Gemini API error: retrieval unavailable'' \<and>
   map_option (errorsForStage LegalResearch) (activeWorkflows failedOrchestrator ''wf-1'') =
     Some [researchError ''Legal Research Agent'' SevHigh,
           researchError ''workflow-orchestrator'' SevCritical]"
  by (simp add: failed_result failedOrchestrator_workflow failedWorkflow_def errorsForStage_def
      researchError_def)

lemma demo_intake_stage:
  "fst (runStage researchFails ''wf-1'' PlaintiffIntake demoCase startedOrchestrator) =
     Inr (demoCase\<lparr> workflowStage := PlaintiffIntake \<rparr>) \<and>
   agents (snd (runStage researchFails ''wf-1'' PlaintiffIntake demoCase startedOrchestrator))
     ''research'' = Some researchAgent"
  by (simp add: startedOrchestrator_eq runStage_def updateWorkflowProgress_def modifyWorkflow_def
      emit_def getAgentForStage_def process_def processBegin_def processEnd_def
      processFinally_def updateMetrics_def addWorkflowLog_def researchFails_def passingTasks_def
      intakeAgent_def newAgent_def Let_def)

theorem research_failure_logged_twice_witness:
  "\<exists>orch' ws'.
     processWorkflow researchFails ''wf-1'' demoCase startedOrchestrator =
       (Inl ''Gemini API error: retrieval unavailable'', orch') \<and>
     activeWorkflows orch' ''wf-1'' = Some ws' \<and>
     errors ws' = [researchError ''Legal Research Agent'' SevHigh,
                   researchError ''workflow-orchestrator'' SevCritical] \<and>
     currentStage ws' = LegalResearch \<and> progress ws' = 17"
proof -
  let ?c1 = "demoCase\<lparr> workflowStage := PlaintiffIntake \<rparr>"
  let ?orch1 = "snd (runStage researchFails ''wf-1'' PlaintiffIntake demoCase startedOrchestrator)"
  let ?ws = "\<lparr> wfCaseId = ''case-1'', currentStage = PlaintiffIntake, completedStages = [],
           progress = 0, estimatedCompletion = 1801000, logs = [startedLog], errors = [] \<rparr>"
  have act: "activeWorkflows startedOrchestrator ''wf-1'' = Some ?ws"
    by (simp add: startedOrchestrator_eq)
  have nores: "LegalResearch \<notin> set (completedStages ?ws)" by simp
  have intake: "if PlaintiffIntake \<in> set (completedStages ?ws)
      then ?c1 = demoCase \<and> ?orch1 = startedOrchestrator
      else runStage researchFails ''wf-1'' PlaintiffIntake demoCase startedOrchestrator
             = (Inr ?c1, ?orch1)"
    using demo_intake_stage by (simp add: prod_eq_iff)
  have ag: "agents ?orch1 ''research'' = Some researchAgent"
    using demo_intake_stage by simp
  have thr: "fst (process (researchFails LegalResearch) ?c1 researchAgent) =
      Inl ''Gemini API error: retrieval unavailable''"
    by (simp add: process_def processBegin_def processEnd_def researchFails_def
        researchAgent_def newAgent_def)
  have name: "agentName (agent researchAgent) = ''Legal Research Agent''"
    by (simp add: researchAgent_def newAgent_def)
  from research_failure_logged_twice
    [of startedOrchestrator "''wf-1''" ?ws ?c1 demoCase ?orch1 researchFails researchAgent
        "''Gemini API error: retrieval unavailable''"]
    act nores intake ag thr
  obtain orch' ws' where
    "processWorkflow researchFails ''wf-1'' demoCase startedOrchestrator =
       (Inl ''Gemini API error: retrieval unavailable'', orch')"
    "activeWorkflows orch' ''wf-1'' = Some ws'"
    "errors ws' = errors ?ws @
          [\<lparr> errStage = LegalResearch, errAgent = agentName (agent researchAgent),
             errError = ''Gemini API error: retrieval unavailable'',
             errSeverity = SevHigh, errResolved = False \<rparr>,
           \<lparr> errStage = LegalResearch, errAgent = ''workflow-orchestrator'',
             errError = ''Gemini API error: retrieval unavailable'',
             errSeverity = SevCritical, errResolved = False \<rparr>]"
    "currentStage ws' = LegalResearch" "progress ws' = 17"
    by blast
  then show ?thesis
    by (intro exI [of _ orch'] exI [of _ ws']) (simp add: name researchError_def)
qed

end
